theory Spec2Isabelle
  imports Main "HOL-Library.Word"
begin

text \<open>
  A model of the multiplexing engine of multiplex-websocket: the binary frame codec, the
  dispatcher that schedules the per-channel send queues and the control queue onto one
  socket, and the connection's handling of inbound frames. Functions that throw return a
  sum with the error on the left; objects that are shared and mutated live in stores; the
  two \<open>async\<close> loops of the dispatcher are cut at their \<open>await\<close>, so that every
  interleaving of callers, inbound frames and gate openings is a list of events.
\<close>

section \<open>Frame codec\<close>

text \<open>
  A buffer is a list of unsigned bytes. The opcode enum of the source is a numeric
  TypeScript enum: at run time an opcode is a number, and \<open>parse\<close> stores whatever byte 0
  holds without looking at it, so the model keeps opcodes as numbers and names the five
  members of the enum.
\<close>

type_synonym byte = "8 word"

datatype error = RangeError | TypeError | Error string

definition CreateChannel :: nat where "CreateChannel = 0"
definition CloseChannel :: nat where "CloseChannel = 1"
definition Data :: nat where "Data = 2"
definition ChannelBufferFull :: nat where "ChannelBufferFull = 3"
definition ChannelBufferEmpty :: nat where "ChannelBufferEmpty = 4"

definition recognized :: "nat set" where
  "recognized = {CreateChannel, CloseChannel, Data, ChannelBufferFull, ChannelBufferEmpty}"

text \<open>
  \<open>MultiplexWebSocketMessage\<close>: the fields \<open>_opcode\<close>, \<open>_local\<close>, \<open>_id\<close> and the
  optional \<open>_data\<close> (\<open>None\<close> is \<open>undefined\<close>).
\<close>

record message =
  m_opcode :: nat
  m_local :: bool
  m_id :: nat
  m_data :: "byte list option"

text \<open>\<open>DataView\<close> reads raise a RangeError outside the buffer.\<close>

definition getUint8 :: "byte list \<Rightarrow> nat \<Rightarrow> error + nat" where
  "getUint8 view byteOffset =
     (if byteOffset < length view then Inr (unat (view ! byteOffset)) else Inl RangeError)"

definition getUint32 :: "byte list \<Rightarrow> nat \<Rightarrow> error + nat" where
  "getUint32 view byteOffset =
     (if byteOffset + 4 \<le> length view
      then Inr (unat (view ! byteOffset) * 16777216 + unat (view ! (byteOffset + 1)) * 65536
              + unat (view ! (byteOffset + 2)) * 256 + unat (view ! (byteOffset + 3)))
      else Inl RangeError)"

definition parse :: "byte list \<Rightarrow> error + message" where
  "parse buffer =
     (case getUint8 buffer 0 of
        Inl e \<Rightarrow> Inl e
      | Inr opc \<Rightarrow>
         (case getUint8 buffer 1 of
            Inl e \<Rightarrow> Inl e
          | Inr flag \<Rightarrow>
             (case getUint32 buffer 2 of
                Inl e \<Rightarrow> Inl e
              | Inr n \<Rightarrow>
                 Inr \<lparr>m_opcode = opc, m_local = (flag = 0), m_id = n,
                      m_data = Some (drop 6 buffer)\<rparr>)))"

text \<open>\<open>Buffer\<close> writes raise a RangeError for a value outside the field's range.\<close>

definition writeUInt8 :: "nat \<Rightarrow> error + byte list" where
  "writeUInt8 v = (if v \<le> 255 then Inr [of_nat v] else Inl RangeError)"

definition writeUInt32BE :: "nat \<Rightarrow> error + byte list" where
  "writeUInt32BE v =
     (if v \<le> 4294967295
      then Inr [of_nat (v div 16777216), of_nat (v div 65536), of_nat (v div 256), of_nat v]
      else Inl RangeError)"

definition toBuffer :: "message \<Rightarrow> error + byte list" where
  "toBuffer m =
     (case writeUInt8 (m_opcode m) of
        Inl e \<Rightarrow> Inl e
      | Inr b0 \<Rightarrow>
         (case writeUInt8 (if m_local m then 0 else 1) of
            Inl e \<Rightarrow> Inl e
          | Inr b1 \<Rightarrow>
             (case writeUInt32BE (m_id m) of
                Inl e \<Rightarrow> Inl e
              | Inr b2 \<Rightarrow>
                 Inr (b0 @ b1 @ b2 @ (case m_data m of None \<Rightarrow> [] | Some d \<Rightarrow> d)))))"

text \<open>The payload bytes of a message: none when \<open>_data\<close> is absent.\<close>

definition payload :: "message \<Rightarrow> byte list" where
  "payload m = (case m_data m of None \<Rightarrow> [] | Some d \<Rightarrow> d)"

section \<open>Send queues\<close>

text \<open>
  A \<open>PromiseResolver\<close> is an object with identity: the model numbers them in the order of
  their creation and keeps their states in the dispatcher (\<open>promises\<close>). A send task is
  the pair of its resolver and its data.
\<close>

datatype pstate = Pending | Resolved | Rejected

record task =
  resolver :: nat
  t_data :: "byte list"

text \<open>\<open>MultiplexWebSocketSendQueue\<close>, with the initial values of its fields.\<close>

record send_queue =
  q_local :: bool
  q_id :: nat
  q_queue :: "task list"
  remoteFull :: bool
  lastSendTime :: int

definition new_queue :: "bool \<Rightarrow> nat \<Rightarrow> send_queue" where
  "new_queue local ident =
     \<lparr>q_local = local, q_id = ident, q_queue = [], remoteFull = False, lastSendTime = 0\<rparr>"

section \<open>Dispatcher\<close>

text \<open>
  The repository holds the dispatcher twice: in \<open>index.ts\<close> and in
  \<open>multiplex-websocket-dispatcher.ts\<close>. The two texts agree line by line except for the
  expression that chooses the opcode of a data frame, so the model is written once and takes
  the file as a parameter where that expression is used.
\<close>

datatype impl = IndexTs | DispatcherTs

definition frame_opcode :: "impl \<Rightarrow> send_queue \<Rightarrow> nat" where
  "frame_opcode i candidate =
     (case i of
        IndexTs \<Rightarrow> (if lastSendTime candidate = 0 then CreateChannel else Data)
      | DispatcherTs \<Rightarrow>
          (if q_local candidate \<and> lastSendTime candidate = 0 then CreateChannel else Data))"

text \<open>
  Send queues are objects that are shared: the table \<open>_queues\<close>, the close listener of
  \<open>addChannel\<close> and the \<open>candidate\<close> variable of a suspended \<open>processQueues\<close> all refer to
  them, and the last two keep their reference after the queue has left the table. So the
  queues live in a store (\<open>heap\<close>, addresses handed out in order by \<open>allocated\<close>) and the
  table is a list of addresses.

  Both loops are \<open>async\<close> functions with one \<open>await\<close> each (the backpressure gate
  \<open>waitWebSocketBufferAmountLow\<close>). An \<open>await\<close> always gives control back to the caller,
  also when the promise is already resolved, so a call runs up to the gate and leaves a
  continuation: \<open>controlAwait\<close> says that \<open>processControlQueue\<close> is suspended at its gate,
  \<open>dataAwait\<close> holds the \<open>candidate\<close> and the \<open>task\<close> of \<open>processQueues\<close> suspended at its
  gate. \<open>wire\<close> lists the buffers handed to \<open>socket.send\<close>, oldest first.
\<close>

record dispatcher =
  heap :: "nat \<Rightarrow> send_queue"
  allocated :: nat
  queues :: "nat list"
  controlQueue :: "message list"
  processingControlQueue :: bool
  controlAwait :: bool
  processingQueues :: bool
  dataAwait :: "(nat \<times> task) option"
  promises :: "nat \<Rightarrow> pstate"
  resolvers :: nat
  wire :: "byte list list"

definition new_dispatcher :: dispatcher where
  "new_dispatcher =
     \<lparr>heap = (\<lambda>_. new_queue False 0), allocated = 0, queues = [], controlQueue = [],
      processingControlQueue = False, controlAwait = False, processingQueues = False,
      dataAwait = None, promises = (\<lambda>_. Pending), resolvers = 0, wire = []\<rparr>"

text \<open>
  How a suspended loop goes on is decided by the socket: the gate resolves and the send
  goes through (\<open>Sent\<close>), the gate rejects because the socket is no longer open
  (\<open>GateRejected\<close>), or the gate resolves and \<open>socket.send\<close> throws (\<open>SendThrew\<close>).
\<close>

datatype outcome = Sent | GateRejected | SendThrew

text \<open>Settling a promise a second time does nothing.\<close>

definition settle :: "nat \<Rightarrow> pstate \<Rightarrow> (nat \<Rightarrow> pstate) \<Rightarrow> (nat \<Rightarrow> pstate)" where
  "settle p s ps = (if ps p = Pending then ps(p := s) else ps)"

text \<open>\<open>enqueue\<close> of the queue at address \<open>r\<close>: a new resolver, the task pushed at the end.\<close>

definition enqueue :: "nat \<Rightarrow> byte list \<Rightarrow> dispatcher \<Rightarrow> nat \<times> dispatcher" where
  "enqueue r dat d =
     (let p = resolvers d; q = heap d r
      in (p, d\<lparr>heap := (heap d)(r := q\<lparr>q_queue := q_queue q @ [\<lparr>resolver = p, t_data = dat\<rparr>]\<rparr>),
               promises := (promises d)(p := Pending), resolvers := Suc p\<rparr>))"

text \<open>
  The queues that the filter of \<open>processQueues\<close> keeps, in table order, and the candidate:
  the first element of this list after the sort by \<open>lastSendTime\<close>. The sort of the
  source is \<open>Array.prototype.sort\<close> with the comparator \<open>a.lastSendTime - b.lastSendTime\<close>,
  a stable ascending sort; \<open>sort_key\<close> is one.
\<close>

definition pending :: "dispatcher \<Rightarrow> nat list" where
  "pending d = filter (\<lambda>r. \<not> remoteFull (heap d r) \<and> q_queue (heap d r) \<noteq> []) (queues d)"

definition candidate :: "dispatcher \<Rightarrow> nat" where
  "candidate d = hd (sort_key (\<lambda>r. lastSendTime (heap d r)) (pending d))"

text \<open>
  \<open>dequeue\<close> of a queue: \<open>shift\<close> gives \<open>undefined\<close> on an empty array.
\<close>

definition dequeue :: "send_queue \<Rightarrow> task option \<times> send_queue" where
  "dequeue q =
     (case q_queue q of
        [] \<Rightarrow> (None, q)
      | task # rest \<Rightarrow> (Some task, q\<lparr>q_queue := rest\<rparr>))"

text \<open>
  One pass of the \<open>while (true)\<close> of \<open>processQueues\<close>, from its head to the \<open>await\<close> or to a
  \<open>break\<close>. The candidate comes out of the filter, so its queue holds a task and \<open>dequeue\<close>
  returns one (lemma \<open>processQueues_loop_alt\<close>); with \<open>undefined\<close> the \<open>try\<close> block and its
  \<open>catch\<close> would both throw on \<open>task.data\<close> and \<open>task.resolver\<close>, which ends the function
  with \<open>_processingQueues\<close> still set.
\<close>

definition processQueues_loop :: "dispatcher \<Rightarrow> dispatcher" where
  "processQueues_loop d =
     (if processingControlQueue d then d\<lparr>processingQueues := False\<rparr>
      else if pending d = [] then d\<lparr>processingQueues := False\<rparr>
      else
        (let c = candidate d
         in case dequeue (heap d c) of
              (None, q) \<Rightarrow> d
            | (Some task, q) \<Rightarrow> d\<lparr>heap := (heap d)(c := q), dataAwait := Some (c, task)\<rparr>))"

definition processQueues :: "dispatcher \<Rightarrow> dispatcher" where
  "processQueues d =
     (if processingQueues d then d else processQueues_loop (d\<lparr>processingQueues := True\<rparr>))"

text \<open>
  \<open>processQueues\<close> after its \<open>await\<close>: the \<open>try\<close> block with the frame built from the
  candidate as it is now, the \<open>catch\<close> that rejects the task, then the next pass.
\<close>

definition resumeData :: "impl \<Rightarrow> outcome \<Rightarrow> int \<Rightarrow> dispatcher \<Rightarrow> dispatcher" where
  "resumeData i out now d =
     (case dataAwait d of
        None \<Rightarrow> d
      | Some (c, task) \<Rightarrow>
          (let q = heap d c;
               frame = toBuffer \<lparr>m_opcode = frame_opcode i q, m_local = q_local q, m_id = q_id q,
                                 m_data = Some (t_data task)\<rparr>;
               d1 = d\<lparr>dataAwait := None\<rparr>
           in processQueues_loop
                (case frame of
                   Inr b \<Rightarrow>
                     (if out = Sent
                      then d1\<lparr>heap := (heap d)(c := q\<lparr>lastSendTime := now\<rparr>),
                              promises := settle (resolver task) Resolved (promises d),
                              wire := wire d @ [b]\<rparr>
                      else d1\<lparr>promises := settle (resolver task) Rejected (promises d)\<rparr>)
                 | Inl e \<Rightarrow> d1\<lparr>promises := settle (resolver task) Rejected (promises d)\<rparr>)))"

text \<open>
  \<open>processControlQueue\<close>: the head of its \<open>while\<close>, the function itself and what follows
  the \<open>await\<close>. Nothing catches an exception there: the function ends with
  \<open>_processingControlQueue\<close> still set.
\<close>

definition processControlQueue_loop :: "dispatcher \<Rightarrow> dispatcher" where
  "processControlQueue_loop d =
     (if controlQueue d \<noteq> [] then d\<lparr>controlAwait := True\<rparr>
      else processQueues (d\<lparr>processingControlQueue := False\<rparr>))"

definition processControlQueue :: "dispatcher \<Rightarrow> dispatcher" where
  "processControlQueue d =
     (if processingControlQueue d then d
      else processControlQueue_loop (d\<lparr>processingControlQueue := True\<rparr>))"

definition resumeControl :: "outcome \<Rightarrow> dispatcher \<Rightarrow> dispatcher" where
  "resumeControl out d =
     (if \<not> controlAwait d then d
      else
        (let d1 = d\<lparr>controlAwait := False\<rparr>
         in if out = GateRejected then d1
            else
              (case controlQueue d of
                 [] \<Rightarrow> d1
               | message # rest \<Rightarrow>
                   (case toBuffer message of
                      Inl e \<Rightarrow> d1\<lparr>controlQueue := rest\<rparr>
                    | Inr b \<Rightarrow>
                        (if out = SendThrew then d1\<lparr>controlQueue := rest\<rparr>
                         else processControlQueue_loop
                                (d1\<lparr>controlQueue := rest, wire := wire d @ [b]\<rparr>))))))"

definition sendControlMessage :: "bool \<Rightarrow> nat \<Rightarrow> nat \<Rightarrow> dispatcher \<Rightarrow> dispatcher" where
  "sendControlMessage local ident opc d =
     processControlQueue
       (d\<lparr>controlQueue := controlQueue d
             @ [\<lparr>m_opcode = opc, m_local = local, m_id = ident, m_data = None\<rparr>]\<rparr>)"

text \<open>
  \<open>addChannel\<close> of the dispatcher builds the queue of a channel and returns nothing; the
  model returns the address of the queue, which the close listener keeps. \<open>removeQueue\<close> is
  that listener: \<open>indexOf\<close> and \<open>splice\<close> take the first occurrence out of the table.
\<close>

definition addChannel :: "bool \<Rightarrow> nat \<Rightarrow> dispatcher \<Rightarrow> nat \<times> dispatcher" where
  "addChannel local ident d =
     (let r = allocated d
      in (r, d\<lparr>heap := (heap d)(r := new_queue local ident), allocated := Suc r,
               queues := queues d @ [r]\<rparr>))"

definition removeQueue :: "nat \<Rightarrow> dispatcher \<Rightarrow> dispatcher" where
  "removeQueue r d = d\<lparr>queues := remove1 r (queues d)\<rparr>"

definition findQueue :: "bool \<Rightarrow> nat \<Rightarrow> dispatcher \<Rightarrow> nat option" where
  "findQueue local ident d =
     find (\<lambda>r. q_local (heap d r) = local \<and> q_id (heap d r) = ident) (queues d)"

definition handleControlMessage :: "bool \<Rightarrow> nat \<Rightarrow> nat \<Rightarrow> dispatcher \<Rightarrow> dispatcher" where
  "handleControlMessage local ident opc d =
     (case findQueue local ident d of
        None \<Rightarrow> d
      | Some r \<Rightarrow>
          d\<lparr>heap := (heap d)(r := (heap d r)\<lparr>remoteFull := (opc = ChannelBufferFull)\<rparr>)\<rparr>)"

text \<open>\<open>send\<close> throws, or returns the promise of the new task and the state it leaves.\<close>

definition send :: "bool \<Rightarrow> nat \<Rightarrow> byte list \<Rightarrow> dispatcher \<Rightarrow> error + nat \<times> dispatcher" where
  "send local ident dat d =
     (case findQueue local ident d of
        None \<Rightarrow> Inl (Error ''cannot write after end'')
      | Some r \<Rightarrow> (let (p, d1) = enqueue r dat d in Inr (p, processQueues d1)))"

subsection \<open>Runs of the dispatcher\<close>

text \<open>
  What can happen to a dispatcher, one event at a time: a call of one of its public
  methods, the close listener of a queue, or a suspended loop going on. A \<open>send\<close> that
  throws leaves the state as it was; resuming a loop that is not suspended is no event at
  all and changes nothing.
\<close>

datatype event =
    Send bool nat "byte list"
  | SendControlMessage bool nat nat
  | HandleControlMessage bool nat nat
  | AddChannel bool nat
  | ChannelClosed nat
  | ResumeData outcome int
  | ResumeControl outcome

fun step :: "impl \<Rightarrow> event \<Rightarrow> dispatcher \<Rightarrow> dispatcher" where
  "step i (Send local ident dat) d =
     (case send local ident dat d of Inl e \<Rightarrow> d | Inr (p, d') \<Rightarrow> d')"
| "step i (SendControlMessage local ident opc) d = sendControlMessage local ident opc d"
| "step i (HandleControlMessage local ident opc) d = handleControlMessage local ident opc d"
| "step i (AddChannel local ident) d = snd (addChannel local ident d)"
| "step i (ChannelClosed r) d = removeQueue r d"
| "step i (ResumeData out now) d = resumeData i out now d"
| "step i (ResumeControl out) d = resumeControl out d"

fun run :: "impl \<Rightarrow> event list \<Rightarrow> dispatcher \<Rightarrow> dispatcher" where
  "run i [] d = d"
| "run i (e # es) d = run i es (step i e d)"

section \<open>Channels and the connection\<close>

text \<open>
  \<open>MultiplexWebSocketChannel\<close> extends the \<open>Duplex\<close> of Node's stream library. Of the
  state it inherits the model keeps what the connection's handlers depend on: the chunks
  pushed to the readable side (\<open>c_inbox\<close>) and whether \<open>end()\<close> has been called
  (\<open>c_ending\<close>). \<open>c_queue\<close> is the send queue that the dispatcher's close listener of this
  channel holds.
\<close>

record channel =
  c_local :: bool
  c_id :: nat
  c_localFull :: bool
  c_queue :: nat
  c_ending :: bool
  c_inbox :: "byte list list"

text \<open>
  \<open>MultiplexWebSocket\<close>: its dispatcher, the counter \<open>_id\<close>, the channel objects and the
  table \<open>_channels\<close> of their addresses, and the \<open>channel\<close> events emitted so far (the new
  channel with the payload of its frame).
\<close>

record connection =
  dispatcher :: dispatcher
  next_id :: nat
  chans :: "nat \<Rightarrow> channel"
  nchans :: nat
  channels :: "nat list"
  emitted :: "(nat \<times> byte list option) list"

definition new_connection :: connection where
  "new_connection =
     \<lparr>dispatcher = new_dispatcher, next_id = 0,
      chans = (\<lambda>_. \<lparr>c_local = False, c_id = 0, c_localFull = False, c_queue = 0,
                     c_ending = False, c_inbox = []\<rparr>),
      nchans = 0, channels = [], emitted = []\<rparr>"

text \<open>The channel constructor followed by \<open>initialzeChannel\<close>.\<close>

definition initialzeChannel :: "bool \<Rightarrow> nat \<Rightarrow> connection \<Rightarrow> nat \<times> connection" where
  "initialzeChannel local ident c =
     (let (q, d') = addChannel local ident (dispatcher c); r = nchans c
      in (r, c\<lparr>dispatcher := d',
               chans := (chans c)(r := \<lparr>c_local = local, c_id = ident, c_localFull = False,
                                         c_queue = q, c_ending = False, c_inbox = []\<rparr>),
               nchans := Suc r, channels := channels c @ [r]\<rparr>))"

definition connection_addChannel :: "connection \<Rightarrow> nat \<times> connection" where
  "connection_addChannel c =
     (let (r, c') = initialzeChannel True (next_id c) c in (r, c'\<lparr>next_id := next_id c + 1\<rparr>))"

text \<open>
  The \<open>close\<close> event of a channel runs the two listeners that \<open>initialzeChannel\<close> has
  registered: the dispatcher's, then the connection's.
\<close>

definition channel_closed :: "nat \<Rightarrow> connection \<Rightarrow> connection" where
  "channel_closed r c =
     c\<lparr>dispatcher := removeQueue (c_queue (chans c r)) (dispatcher c),
       channels := remove1 r (channels c)\<rparr>"

text \<open>
  \<open>_final\<close>: the \<open>CloseChannel\<close> control message, the callback, and \<open>destroy()\<close>, whose
  \<open>_destroy\<close> only calls back, so that the stream emits \<open>close\<close>.
\<close>

definition final :: "nat \<Rightarrow> connection \<Rightarrow> connection" where
  "final r c =
     channel_closed r
       (c\<lparr>dispatcher := sendControlMessage (c_local (chans c r)) (c_id (chans c r)) CloseChannel
                           (dispatcher c)\<rparr>)"

text \<open>
  \<open>end()\<close> is not overridden: it is the method of Node's \<open>Writable\<close>, which marks the stream
  as ending and calls the \<open>_final\<close> hook once no \<open>_write\<close> is waiting for its callback; a
  second \<open>end()\<close> does nothing. A \<open>_write\<close> of a channel waits for the promise of
  \<open>dispatcher.send\<close>, so one is waiting exactly when a task of the channel's queue is
  queued or held by the suspended \<open>processQueues\<close>. When one is waiting the hook runs
  after that callback, which this model does not follow: \<open>channel_end\<close> then only marks the
  channel.
\<close>

definition writable_idle :: "nat \<Rightarrow> connection \<Rightarrow> bool" where
  "writable_idle r c =
     (let q = c_queue (chans c r)
      in q_queue (heap (dispatcher c) q) = []
         \<and> (case dataAwait (dispatcher c) of None \<Rightarrow> True | Some (q', task) \<Rightarrow> q' \<noteq> q))"

definition channel_end :: "nat \<Rightarrow> connection \<Rightarrow> connection" where
  "channel_end r c =
     (if c_ending (chans c r) then c
      else
        (let c1 = c\<lparr>chans := (chans c)(r := (chans c r)\<lparr>c_ending := True\<rparr>)\<rparr>
         in if writable_idle r c then final r c1 else c1))"

text \<open>
  \<open>push\<close> of a channel. Whether \<open>super.push\<close> returns false (the readable buffer is over
  its high-water mark) is decided by the stream library and its reader: it is the
  parameter \<open>result\<close>.
\<close>

definition push :: "bool \<Rightarrow> byte list \<Rightarrow> nat \<Rightarrow> connection \<Rightarrow> connection" where
  "push result chunk r c =
     (let ch = (chans c r)\<lparr>c_inbox := c_inbox (chans c r) @ [chunk]\<rparr>
      in if \<not> result \<and> \<not> c_localFull ch
         then c\<lparr>dispatcher := sendControlMessage (c_local ch) (c_id ch) ChannelBufferFull
                                 (dispatcher c),
                chans := (chans c)(r := ch\<lparr>c_localFull := True\<rparr>)\<rparr>
         else c\<lparr>chans := (chans c)(r := ch)\<rparr>)"

text \<open>
  The lookup of the \<open>Data\<close> and \<open>CloseChannel\<close> cases: the first channel of the table whose
  flag differs from the frame's and whose id is the frame's.
\<close>

definition findChannel :: "message \<Rightarrow> connection \<Rightarrow> nat option" where
  "findChannel message c =
     find (\<lambda>r. c_local (chans c r) \<noteq> m_local message \<and> c_id (chans c r) = m_id message)
       (channels c)"

text \<open>
  The \<open>message\<close> listener of the socket. The \<open>switch\<close> has no default: a frame with any
  other opcode is dropped.
\<close>

definition onMessage :: "bool \<Rightarrow> byte list \<Rightarrow> connection \<Rightarrow> error + connection" where
  "onMessage result buffer c =
     (case parse buffer of
        Inl e \<Rightarrow> Inl e
      | Inr message \<Rightarrow>
          Inr (if m_opcode message = CreateChannel then
                 (let (r, c') = initialzeChannel False (m_id message) c
                  in c'\<lparr>emitted := emitted c' @ [(r, m_data message)]\<rparr>)
               else if m_opcode message = Data then
                 (case findChannel message c of
                    None \<Rightarrow> c
                  | Some r \<Rightarrow> push result (payload message) r c)
               else if m_opcode message = CloseChannel then
                 (case findChannel message c of
                    None \<Rightarrow> c
                  | Some r \<Rightarrow> channel_end r c)
               else if m_opcode message = ChannelBufferFull
                     \<or> m_opcode message = ChannelBufferEmpty then
                 c\<lparr>dispatcher := handleControlMessage (\<not> m_local message) (m_id message)
                                    (m_opcode message) (dispatcher c)\<rparr>
               else c))"

section \<open>Invariants of the dispatcher\<close>

text \<open>
  The resolvers of the tasks waiting in a queue, the resolver of the task that the suspended
  \<open>processQueues\<close> holds, and what every run of a dispatcher keeps true: the table holds
  distinct allocated addresses, every task that waits or is held has a pending promise of
  its own, and a task is held only while \<open>_processingQueues\<close> is set.
\<close>

definition qs :: "dispatcher \<Rightarrow> nat \<Rightarrow> nat list" where
  "qs d r = map resolver (q_queue (heap d r))"

definition inflight :: "dispatcher \<Rightarrow> nat set" where
  "inflight d = (case dataAwait d of None \<Rightarrow> {} | Some (c, t) \<Rightarrow> {resolver t})"

definition Inv :: "dispatcher \<Rightarrow> bool" where
  "Inv d \<longleftrightarrow>
     (\<forall>r\<in>set (queues d). r < allocated d)
   \<and> distinct (queues d)
   \<and> (\<forall>r. allocated d \<le> r \<longrightarrow> qs d r = [])
   \<and> (\<forall>r. \<forall>p\<in>set (qs d r). p < resolvers d \<and> promises d p = Pending)
   \<and> (\<forall>p\<in>inflight d. p < resolvers d \<and> promises d p = Pending \<and> (\<forall>r. p \<notin> set (qs d r)))
   \<and> (\<forall>r. distinct (qs d r))
   \<and> (\<forall>r r'. r \<noteq> r' \<longrightarrow> set (qs d r) \<inter> set (qs d r') = {})
   \<and> (dataAwait d \<noteq> None \<longrightarrow> processingQueues d)"

text \<open>
  A queue that the filter of \<open>processQueues\<close> cannot keep: the peer has reported it full, or
  it is no longer in the table.
\<close>

definition blocked :: "dispatcher \<Rightarrow> nat \<Rightarrow> bool" where
  "blocked d r \<longleftrightarrow> remoteFull (heap d r) \<or> r \<notin> set (queues d)"

section \<open>Example states\<close>

text \<open>
  A dispatcher with one locally created channel and two writes: the first task is held by
  the suspended \<open>processQueues\<close>, the second waits in the queue.
\<close>

definition two_writes :: dispatcher where
  "two_writes = run IndexTs [AddChannel True 0, Send True 0 [1], Send True 0 [2]] new_dispatcher"

text \<open>
  A dispatcher between two passes with four queues that all hold one task: queue 0 was
  served at time 7, queues 1 and 2 at time 3, queue 3 at time 1 but its peer has reported it
  full.
\<close>

definition four_queues :: dispatcher where
  "four_queues =
     new_dispatcher
       \<lparr>heap := (\<lambda>r. \<lparr>q_local = True, q_id = r,
                       q_queue = (if r < 4 then [\<lparr>resolver = r, t_data = [of_nat r]\<rparr>] else []),
                       remoteFull = (r = 3),
                       lastSendTime = (if r = 0 then 7 else if r = 3 then 1 else 3)\<rparr>),
        allocated := 4, queues := [0, 1, 2, 3], processingQueues := True, resolvers := 4\<rparr>"

text \<open>
  Dispatchers with one channel whose first write is held at the gate: a locally created and
  a remotely created channel in \<open>multiplex-websocket-dispatcher.ts\<close>, a remotely created one
  in \<open>index.ts\<close>.
\<close>

definition local_first :: dispatcher where
  "local_first = run DispatcherTs [AddChannel True 4, Send True 4 [6]] new_dispatcher"

definition remote_first :: dispatcher where
  "remote_first = run DispatcherTs [AddChannel False 3, Send False 3 [9]] new_dispatcher"

definition remote_reply :: dispatcher where
  "remote_reply = run IndexTs [AddChannel False 0, Send False 0 [8, 9]] new_dispatcher"

text \<open>The peer of that channel: a connection that has created its channel 0.\<close>

definition peer_connection :: connection where
  "peer_connection = snd (connection_addChannel new_connection)"

text \<open>
  A dispatcher whose data loop is suspended at the gate with a dequeued write when a
  control message is submitted.
\<close>

definition race :: dispatcher where
  "race =
     run IndexTs [AddChannel True 0, Send True 0 [1], SendControlMessage True 0 ChannelBufferFull]
       new_dispatcher"

text \<open>
  A connection with one channel of its own whose first write has been sent and whose
  second write is held at the gate; a connection that has received two \<open>CreateChannel\<close>
  frames with the same id; and a connection that has received one \<open>CreateChannel\<close> frame
  with id 5.
\<close>

definition busy_connection :: connection where
  "busy_connection =
     (let c = snd (connection_addChannel new_connection)
      in c\<lparr>dispatcher :=
             run DispatcherTs [Send True 0 [1], ResumeData Sent 5, Send True 0 [2]] (dispatcher c)\<rparr>)"

definition twin_connection :: connection where
  "twin_connection =
     projr (onMessage True [0, 0, 0, 0, 0, 0] (projr (onMessage True [0, 0, 0, 0, 0, 0] new_connection)))"

definition open_connection :: connection where
  "open_connection = projr (onMessage True [0, 0, 0, 0, 0, 5, 104, 105] new_connection)"

text \<open>\<open>busy_connection\<close> after the peer's \<open>ChannelBufferFull\<close> frame for its channel.\<close>

definition full_connection :: connection where
  "full_connection = projr (onMessage True [3, 1, 0, 0, 0, 0] busy_connection)"

section \<open>Properties of the codec\<close>

lemma u32_split:
  fixes v :: nat
  shows "(v div 16777216) * 16777216 + (v div 65536 mod 256) * 65536
       + (v div 256 mod 256) * 256 + v mod 256 = v"
proof -
  define a where "a = v div 256"
  define b where "b = a div 256"
  define c where "c = b div 256"
  have b: "v div 65536 = b" by (simp add: a_def b_def div_mult2_eq)
  have c: "v div 16777216 = c" by (simp add: a_def b_def c_def div_mult2_eq)
  have 1: "v = 256 * a + v mod 256" by (simp add: a_def)
  have 2: "a = 256 * b + a mod 256" by (simp add: b_def)
  have 3: "b = 256 * c + b mod 256" by (simp add: c_def)
  show ?thesis unfolding b c a_def[symmetric] using 1 2 3 by linarith
qed

lemma u32_bytes:
  assumes "v \<le> 4294967295"
  shows "unat (of_nat (v div 16777216) :: byte) * 16777216
       + unat (of_nat (v div 65536) :: byte) * 65536
       + unat (of_nat (v div 256) :: byte) * 256 + unat (of_nat v :: byte) = v"
proof -
  have "v div 16777216 < 256" using assms by simp
  then have "unat (of_nat (v div 16777216) :: byte) = v div 16777216"
    by (simp add: unat_of_nat)
  moreover have "unat (of_nat (v div 65536) :: byte) = v div 65536 mod 256"
    by (simp add: unat_of_nat)
  moreover have "unat (of_nat (v div 256) :: byte) = v div 256 mod 256"
    by (simp add: unat_of_nat)
  moreover have "unat (of_nat v :: byte) = v mod 256"
    by (simp add: unat_of_nat)
  ultimately show ?thesis using u32_split[of v] by simp
qed

lemma toBuffer_ok:
  assumes "m_opcode m \<le> 255" "m_id m \<le> 4294967295"
  shows "toBuffer m = Inr ([of_nat (m_opcode m), (if m_local m then 0 else 1),
           of_nat (m_id m div 16777216), of_nat (m_id m div 65536), of_nat (m_id m div 256),
           of_nat (m_id m)] @ payload m)"
  using assms by (simp add: toBuffer_def writeUInt8_def writeUInt32BE_def payload_def)

lemma parse_ok:
  "parse (b0 # b1 # b2 # b3 # b4 # b5 # rest) =
     Inr \<lparr>m_opcode = unat b0, m_local = (b1 = 0),
          m_id = unat b2 * 16777216 + unat b3 * 65536 + unat b4 * 256 + unat b5,
          m_data = Some rest\<rparr>"
  by (simp add: parse_def getUint8_def getUint32_def unat_eq_0)

lemma parse_toBuffer_roundtrip_aux:
  assumes "m_opcode m \<le> 255" and "m_id m < 2 ^ 32"
  shows "\<exists>b. toBuffer m = Inr b \<and> parse b = Inr (m\<lparr>m_data := Some (payload m)\<rparr>)"
proof -
  have id: "m_id m \<le> 4294967295" using assms(2) by simp
  have "unat (of_nat (m_opcode m) :: byte) = m_opcode m"
    using assms(1) by (simp add: unat_of_nat)
  then show ?thesis
    using u32_bytes[OF id] by (simp add: toBuffer_ok[OF assms(1) id] parse_ok)
qed

lemma len6:
  assumes "\<not> length buffer < 6"
  obtains b0 b1 b2 b3 b4 b5 rest where "buffer = b0 # b1 # b2 # b3 # b4 # b5 # rest"
proof -
  from assms have "Suc (Suc (Suc (Suc (Suc (Suc 0))))) \<le> length buffer" by simp
  then have "\<exists>b0 b1 b2 b3 b4 b5 rest. buffer = b0 # b1 # b2 # b3 # b4 # b5 # rest"
    unfolding Suc_le_length_iff by auto
  then show ?thesis using that by blast
qed

lemmas opcodes =
  CreateChannel_def CloseChannel_def Data_def ChannelBufferFull_def ChannelBufferEmpty_def

lemmas codec_defs = toBuffer_def writeUInt8_def writeUInt32BE_def

section \<open>Properties of the dispatcher\<close>

lemmas dispatcher_defs =
  new_dispatcher_def new_queue_def frame_opcode_def settle_def enqueue_def pending_def
  candidate_def dequeue_def processQueues_loop_def processQueues_def resumeData_def
  processControlQueue_loop_def processControlQueue_def resumeControl_def
  sendControlMessage_def addChannel_def removeQueue_def findQueue_def
  handleControlMessage_def send_def Let_def

subsection \<open>The invariant holds along every run\<close>

lemma Inv_new: "Inv new_dispatcher"
  by (simp add: Inv_def new_dispatcher_def qs_def inflight_def new_queue_def)

lemma pending_subset: "r \<in> set (pending d) \<Longrightarrow> r \<in> set (queues d) \<and> q_queue (heap d r) \<noteq> [] \<and> \<not> remoteFull (heap d r)"
  by (auto simp: pending_def)

lemma sort_key_nonempty: "xs \<noteq> [] \<Longrightarrow> sort_key f xs \<noteq> []"
  by (metis length_0_conv length_sort)

lemma candidate_pending: "pending d \<noteq> [] \<Longrightarrow> candidate d \<in> set (pending d)"
  unfolding candidate_def
  by (metis hd_in_set set_sort sort_key_nonempty)

lemma processQueues_loop_alt:
  "processQueues_loop d =
     (if processingControlQueue d then d\<lparr>processingQueues := False\<rparr>
      else if pending d = [] then d\<lparr>processingQueues := False\<rparr>
      else
        (let c = candidate d; q = heap d c; task = hd (q_queue q)
         in d\<lparr>heap := (heap d)(c := q\<lparr>q_queue := tl (q_queue q)\<rparr>),
              dataAwait := Some (c, task)\<rparr>))"
proof (cases "processingControlQueue d \<or> pending d = []")
  case True
  then show ?thesis by (auto simp: processQueues_loop_def)
next
  case False
  then have "q_queue (heap d (candidate d)) \<noteq> []"
    using candidate_pending pending_subset by blast
  then obtain t ts where "q_queue (heap d (candidate d)) = t # ts"
    by (cases "q_queue (heap d (candidate d))") auto
  then show ?thesis using False by (simp add: processQueues_loop_def dequeue_def Let_def)
qed

lemma Inv_loop:
  assumes "Inv d" "dataAwait d = None" "processingQueues d"
  shows "Inv (processQueues_loop d)"
proof (cases "processingControlQueue d \<or> pending d = []")
  case True
  then show ?thesis using assms
    by (auto simp: processQueues_loop_alt Inv_def qs_def inflight_def)
next
  case False
  let ?c = "candidate d"
  from False have c: "?c \<in> set (queues d)" "q_queue (heap d ?c) \<noteq> []"
    using candidate_pending pending_subset by blast+
  then obtain t ts where q: "q_queue (heap d ?c) = t # ts" by (cases "q_queue (heap d ?c)") auto
  have qsc: "qs d ?c = resolver t # map resolver ts" by (simp add: qs_def q)
  have eq: "processQueues_loop d = d\<lparr>heap := (heap d)(?c := (heap d ?c)\<lparr>q_queue := ts\<rparr>), dataAwait := Some (?c, t)\<rparr>"
    using False by (simp add: processQueues_loop_alt Let_def q)
  have qs': "qs (processQueues_loop d) r = (if r = ?c then map resolver ts else qs d r)" for r
    by (simp add: eq qs_def)
  have sub: "set (qs (processQueues_loop d) r) \<subseteq> set (qs d r)" for r
    by (auto simp: qs' qsc)
  have dist: "distinct (qs d r)" for r using assms(1) by (simp add: Inv_def)
  have disj: "r \<noteq> r' \<Longrightarrow> set (qs d r) \<inter> set (qs d r') = {}" for r r' using assms(1) by (simp add: Inv_def)
  have fl: "inflight (processQueues_loop d) = {resolver t}" by (simp add: eq inflight_def)
  have tq: "resolver t \<in> set (qs d ?c)" by (simp add: qsc)
  have notin: "resolver t \<notin> set (qs (processQueues_loop d) r)" for r
  proof (cases "r = ?c")
    case True
    then show ?thesis using dist[of ?c] by (simp add: qs' qsc)
  next
    case False
    then show ?thesis using disj[of r ?c] tq by (auto simp: qs')
  qed
  have 1: "\<forall>r\<in>set (queues (processQueues_loop d)). r < allocated (processQueues_loop d)"
    using assms(1) by (simp add: eq Inv_def)
  have 2: "distinct (queues (processQueues_loop d))" using assms(1) by (simp add: eq Inv_def)
  have 3: "\<forall>r. allocated (processQueues_loop d) \<le> r \<longrightarrow> qs (processQueues_loop d) r = []"
  proof (intro allI impI)
    fix r assume "allocated (processQueues_loop d) \<le> r"
    then have "qs d r = []" using assms(1) by (simp add: eq Inv_def)
    then show "qs (processQueues_loop d) r = []" using sub[of r] by simp
  qed
  have old: "p \<in> set (qs d r) \<Longrightarrow> p < resolvers d \<and> promises d p = Pending" for p r
    using assms(1) by (auto simp: Inv_def)
  have 4: "\<forall>r. \<forall>p\<in>set (qs (processQueues_loop d) r). p < resolvers (processQueues_loop d) \<and> promises (processQueues_loop d) p = Pending"
    using sub old by (fastforce simp: eq)
  have 5: "\<forall>p\<in>inflight (processQueues_loop d). p < resolvers (processQueues_loop d) \<and> promises (processQueues_loop d) p = Pending \<and> (\<forall>r. p \<notin> set (qs (processQueues_loop d) r))"
    unfolding fl using old[OF tq] notin by (simp add: eq)
  have 6: "\<forall>r. distinct (qs (processQueues_loop d) r)"
    using dist[of ?c] dist by (auto simp: qs' qsc)
  have 7: "\<forall>r r'. r \<noteq> r' \<longrightarrow> set (qs (processQueues_loop d) r) \<inter> set (qs (processQueues_loop d) r') = {}"
  proof (intro allI impI)
    fix r r' :: nat assume "r \<noteq> r'"
    from disj[OF this] sub[of r] sub[of r']
    show "set (qs (processQueues_loop d) r) \<inter> set (qs (processQueues_loop d) r') = {}" by blast
  qed
  have 8: "dataAwait (processQueues_loop d) \<noteq> None \<longrightarrow> processingQueues (processQueues_loop d)"
    using assms(3) by (simp add: eq)
  show ?thesis unfolding Inv_def using 1 2 3 4 5 6 7 8 by blast
qed

lemma Inv_processQueues: "Inv d \<Longrightarrow> Inv (processQueues d)"
proof -
  assume i: "Inv d"
  show ?thesis
  proof (cases "processingQueues d")
    case True
    then show ?thesis using i by (simp add: processQueues_def)
  next
    case False
    then have n: "dataAwait d = None" using i by (cases "dataAwait d") (simp_all add: Inv_def)
    have "Inv (d\<lparr>processingQueues := True\<rparr>)"
      using i by (simp add: Inv_def qs_def inflight_def)
    from Inv_loop[OF this] n show ?thesis using False by (simp add: processQueues_def)
  qed
qed

lemma Inv_other_fields:
  "Inv (d\<lparr>controlQueue := cq\<rparr>) = Inv d"
  "Inv (d\<lparr>processingControlQueue := b\<rparr>) = Inv d"
  "Inv (d\<lparr>controlAwait := b\<rparr>) = Inv d"
  "Inv (d\<lparr>wire := w\<rparr>) = Inv d"
  by (simp_all add: Inv_def qs_def inflight_def)

lemma Inv_processControlQueue_loop: "Inv d \<Longrightarrow> Inv (processControlQueue_loop d)"
  by (simp add: processControlQueue_loop_def Inv_other_fields Inv_processQueues)

lemma Inv_processControlQueue: "Inv d \<Longrightarrow> Inv (processControlQueue d)"
  by (simp add: processControlQueue_def Inv_other_fields Inv_processControlQueue_loop)

lemma Inv_sendControlMessage: "Inv d \<Longrightarrow> Inv (sendControlMessage local ident opc d)"
  by (simp add: sendControlMessage_def Inv_other_fields Inv_processControlQueue)

lemma Inv_resumeControl: "Inv d \<Longrightarrow> Inv (resumeControl out d)"
  by (simp add: resumeControl_def Let_def Inv_other_fields Inv_processControlQueue_loop
      split: list.split sum.split)

lemma Inv_addChannel: "Inv d \<Longrightarrow> Inv (snd (addChannel local ident d))"
  unfolding Inv_def
  by (auto simp: addChannel_def Let_def qs_def inflight_def new_queue_def less_Suc_eq split: option.splits)

lemma Inv_removeQueue: "Inv d \<Longrightarrow> Inv (removeQueue r d)"
  unfolding Inv_def
  by (auto simp: removeQueue_def qs_def inflight_def dest: notin_set_remove1)

lemma Inv_handleControlMessage: "Inv d \<Longrightarrow> Inv (handleControlMessage local ident opc d)"
  unfolding Inv_def
  by (auto simp: handleControlMessage_def qs_def inflight_def split: option.splits)

lemma Inv_enqueue:
  assumes "Inv d" "r < allocated d"
  shows "Inv (snd (enqueue r dat d))"
proof -
  let ?d = "snd (enqueue r dat d)"
  have qs': "qs ?d r' = (if r' = r then qs d r @ [resolvers d] else qs d r')" for r'
    by (simp add: enqueue_def Let_def qs_def)
  have f: "queues ?d = queues d" "allocated ?d = allocated d" "inflight ?d = inflight d"
    "resolvers ?d = Suc (resolvers d)" "promises ?d = (promises d)(resolvers d := Pending)"
    "dataAwait ?d = dataAwait d" "processingQueues ?d = processingQueues d"
    by (simp_all add: enqueue_def Let_def inflight_def)
  have old: "p \<in> set (qs d r') \<Longrightarrow> p < resolvers d \<and> promises d p = Pending" for p r'
    using assms(1) by (auto simp: Inv_def)
  have fresh: "resolvers d \<notin> set (qs d r')" for r' using old[of "resolvers d" r'] by auto
  have dist: "distinct (qs d r')" for r' using assms(1) by (simp add: Inv_def)
  have disj: "a \<noteq> b \<Longrightarrow> set (qs d a) \<inter> set (qs d b) = {}" for a b using assms(1) by (simp add: Inv_def)
  have fl: "p \<in> inflight d \<Longrightarrow> p < resolvers d \<and> promises d p = Pending \<and> (\<forall>r. p \<notin> set (qs d r))" for p
    using assms(1) by (simp add: Inv_def)
  have 1: "\<forall>r\<in>set (queues ?d). r < allocated ?d" using assms(1) by (simp add: f Inv_def)
  have 2: "distinct (queues ?d)" using assms(1) by (simp add: f Inv_def)
  have 3: "\<forall>r'. allocated ?d \<le> r' \<longrightarrow> qs ?d r' = []"
    using assms by (auto simp: f qs' Inv_def)
  have 4: "\<forall>r'. \<forall>p\<in>set (qs ?d r'). p < resolvers ?d \<and> promises ?d p = Pending"
    using old by (auto simp: f qs' less_Suc_eq)
  have 5: "\<forall>p\<in>inflight ?d. p < resolvers ?d \<and> promises ?d p = Pending \<and> (\<forall>r. p \<notin> set (qs ?d r))"
    using fl by (auto simp: f qs' less_Suc_eq)
  have 6: "\<forall>r'. distinct (qs ?d r')" using dist fresh by (simp add: qs')
  have 7: "\<forall>a b. a \<noteq> b \<longrightarrow> set (qs ?d a) \<inter> set (qs ?d b) = {}"
    using disj fresh by (auto simp: qs')
  have 8: "dataAwait ?d \<noteq> None \<longrightarrow> processingQueues ?d" using assms(1) by (simp add: f Inv_def)
  show ?thesis unfolding Inv_def using 1 2 3 4 5 6 7 8 by blast
qed

lemma findQueue_Some: "findQueue local ident d = Some r \<Longrightarrow>
    r \<in> set (queues d) \<and> q_local (heap d r) = local \<and> q_id (heap d r) = ident"
  by (auto simp: findQueue_def find_Some_iff)

lemma Inv_send: "Inv d \<Longrightarrow> Inv (step i (Send local ident dat) d)"
proof (cases "findQueue local ident d")
  case None
  assume "Inv d" then show ?thesis using None by (simp add: send_def)
next
  case (Some r)
  assume i: "Inv d"
  then have "r < allocated d" using findQueue_Some[OF Some] by (auto simp: Inv_def)
  from Inv_processQueues[OF Inv_enqueue[OF i this]]
  show ?thesis using Some by (simp add: send_def split_beta)
qed

lemma Inv_resumeData: "Inv d \<Longrightarrow> Inv (resumeData i out now d)"
proof (cases "dataAwait d")
  case None
  assume "Inv d" then show ?thesis using None by (simp add: resumeData_def)
next
  case (Some ct)
  assume i: "Inv d"
  obtain c t where ct: "ct = (c, t)" by (cases ct)
  have pq: "processingQueues d" using i Some by (simp add: Inv_def)
  have fl: "\<forall>r. resolver t \<notin> set (qs d r)" using i Some ct by (simp add: Inv_def inflight_def)
  have view: "Inv d'" if "queues d' = queues d" "allocated d' = allocated d"
      "\<And>r. qs d' r = qs d r" "dataAwait d' = None" "resolvers d' = resolvers d"
      "\<And>p. p \<noteq> resolver t \<Longrightarrow> promises d' p = promises d p" for d'
  proof -
    have "\<forall>r. \<forall>p\<in>set (qs d r). p \<noteq> resolver t" using fl by auto
    moreover have "inflight d' = {}" using that(4) by (simp add: inflight_def)
    ultimately show ?thesis using i that unfolding Inv_def by auto
  qed
  have A: "Inv (d\<lparr>dataAwait := None, promises := settle (resolver t) s (promises d)\<rparr>)" for s
    by (rule view) (simp_all add: qs_def settle_def)
  have B: "Inv (d\<lparr>dataAwait := None, heap := (heap d)(c := (heap d c)\<lparr>lastSendTime := now\<rparr>),
                  promises := settle (resolver t) s (promises d), wire := w\<rparr>)" for s w
    by (rule view) (simp_all add: qs_def settle_def)
  show ?thesis
    using Some ct pq A B
    by (auto simp: resumeData_def Let_def intro!: Inv_loop split: sum.split)
qed

lemma Inv_step: "Inv d \<Longrightarrow> Inv (step i e d)"
proof (cases e)
  case (Send l n b)
  assume "Inv d" then show ?thesis unfolding Send by (rule Inv_send)
qed (simp_all add: Inv_sendControlMessage Inv_handleControlMessage Inv_addChannel
       Inv_removeQueue Inv_resumeData Inv_resumeControl)

lemma Inv_run: "Inv d \<Longrightarrow> Inv (run i es d)"
  by (induction es arbitrary: d) (simp_all add: Inv_step)

subsection \<open>What the loops leave unchanged\<close>

lemma loop_frame:
  "queues (processQueues_loop d) = queues d"
  "allocated (processQueues_loop d) = allocated d"
  "promises (processQueues_loop d) = promises d"
  "resolvers (processQueues_loop d) = resolvers d"
  "wire (processQueues_loop d) = wire d"
  "controlQueue (processQueues_loop d) = controlQueue d"
  "processingControlQueue (processQueues_loop d) = processingControlQueue d"
  "controlAwait (processQueues_loop d) = controlAwait d"
  by (simp_all add: processQueues_loop_alt Let_def)

lemma loop_heap_other:
  assumes "r \<notin> set (pending d)"
  shows "heap (processQueues_loop d) r = heap d r"
proof (cases "processingControlQueue d \<or> pending d = []")
  case True
  then show ?thesis by (auto simp: processQueues_loop_alt)
next
  case False
  then have "candidate d \<noteq> r" using candidate_pending assms by metis
  then show ?thesis using False by (simp add: processQueues_loop_alt Let_def)
qed

lemma processQueues_frame:
  "queues (processQueues d) = queues d"
  "allocated (processQueues d) = allocated d"
  "promises (processQueues d) = promises d"
  "resolvers (processQueues d) = resolvers d"
  "wire (processQueues d) = wire d"
  "controlQueue (processQueues d) = controlQueue d"
  "processingControlQueue (processQueues d) = processingControlQueue d"
  "controlAwait (processQueues d) = controlAwait d"
  by (simp_all add: processQueues_def loop_frame)

lemma processQueues_heap_other:
  assumes "r \<notin> set (pending d)"
  shows "heap (processQueues d) r = heap d r"
proof -
  have "pending (d\<lparr>processingQueues := True\<rparr>) = pending d" by (simp add: pending_def)
  then show ?thesis using assms loop_heap_other[of r "d\<lparr>processingQueues := True\<rparr>"]
    by (simp add: processQueues_def)
qed

lemma processControlQueue_loop_heap_other:
  assumes "r \<notin> set (pending d)"
  shows "heap (processControlQueue_loop d) r = heap d r"
proof -
  have "pending (d\<lparr>processingControlQueue := False\<rparr>) = pending d" by (simp add: pending_def)
  then show ?thesis
    using assms processQueues_heap_other[of r "d\<lparr>processingControlQueue := False\<rparr>"]
    by (simp add: processControlQueue_loop_def)
qed

lemma processControlQueue_loop_frame:
  "queues (processControlQueue_loop d) = queues d"
  "allocated (processControlQueue_loop d) = allocated d"
  "promises (processControlQueue_loop d) = promises d"
  "resolvers (processControlQueue_loop d) = resolvers d"
  "wire (processControlQueue_loop d) = wire d"
  "controlQueue (processControlQueue_loop d) = controlQueue d"
  by (simp_all add: processControlQueue_loop_def processQueues_frame)

lemma sendControlMessage_heap_other:
  assumes "r \<notin> set (pending d)"
  shows "heap (sendControlMessage local ident opc d) r = heap d r"
proof -
  let ?d = "d\<lparr>controlQueue := controlQueue d
             @ [\<lparr>m_opcode = opc, m_local = local, m_id = ident, m_data = None\<rparr>],
             processingControlQueue := True\<rparr>"
  have "pending ?d = pending d" by (simp add: pending_def)
  then show ?thesis using assms processControlQueue_loop_heap_other[of r ?d]
    by (simp add: sendControlMessage_def processControlQueue_def)
qed

lemma sendControlMessage_frame:
  "queues (sendControlMessage local ident opc d) = queues d"
  "allocated (sendControlMessage local ident opc d) = allocated d"
  "promises (sendControlMessage local ident opc d) = promises d"
  "resolvers (sendControlMessage local ident opc d) = resolvers d"
  "wire (sendControlMessage local ident opc d) = wire d"
  "controlQueue (sendControlMessage local ident opc d) = controlQueue d
     @ [\<lparr>m_opcode = opc, m_local = local, m_id = ident, m_data = None\<rparr>]"
  by (simp_all add: sendControlMessage_def processControlQueue_def processControlQueue_loop_frame)

lemma resumeControl_heap_other:
  assumes "r \<notin> set (pending d)"
  shows "heap (resumeControl out d) r = heap d r"
proof -
  have "heap (processControlQueue_loop (d\<lparr>controlAwait := False, controlQueue := cq, wire := w\<rparr>)) r
        = heap d r" for cq w
  proof -
    have "pending (d\<lparr>controlAwait := False, controlQueue := cq, wire := w\<rparr>) = pending d"
      by (simp add: pending_def)
    then show ?thesis
      using assms processControlQueue_loop_heap_other
        [of r "d\<lparr>controlAwait := False, controlQueue := cq, wire := w\<rparr>"] by simp
  qed
  then show ?thesis
    by (simp add: resumeControl_def Let_def split: list.split sum.split)
qed

lemma resumeControl_frame:
  "queues (resumeControl out d) = queues d"
  "allocated (resumeControl out d) = allocated d"
  "promises (resumeControl out d) = promises d"
  by (simp_all add: resumeControl_def Let_def processControlQueue_loop_frame
      split: list.split sum.split)

subsection \<open>Queues that cannot be selected\<close>

lemma blocked_not_pending: "blocked d r \<Longrightarrow> r \<notin> set (pending d)"
  by (auto simp: blocked_def pending_def)

lemma send_queue_grows:
  assumes "blocked d r"
  shows "\<exists>ts. q_queue (heap (step i (Send local ident dat) d) r) = q_queue (heap d r) @ ts"
proof (cases "findQueue local ident d")
  case None
  then show ?thesis by (simp add: send_def)
next
  case (Some r')
  let ?d1 = "snd (enqueue r' dat d)"
  have "blocked ?d1 r" using assms by (auto simp: blocked_def enqueue_def Let_def)
  then have "heap (processQueues ?d1) r = heap ?d1 r"
    using blocked_not_pending processQueues_heap_other by blast
  moreover have "\<exists>ts. q_queue (heap ?d1 r) = q_queue (heap d r) @ ts"
    by (simp add: enqueue_def Let_def)
  ultimately show ?thesis using Some by (simp add: send_def split_beta)
qed

lemma resumeData_queue_same:
  assumes "blocked d r"
  shows "q_queue (heap (resumeData i out now d) r) = q_queue (heap d r)"
proof (cases "dataAwait d")
  case None
  then show ?thesis by (simp add: resumeData_def)
next
  case (Some ct)
  obtain c t where ct: "ct = (c, t)" by (cases ct)
  have A: "q_queue (heap (processQueues_loop x) r) = q_queue (heap d r)"
    if "queues x = queues d" "remoteFull (heap x r) = remoteFull (heap d r)"
       "q_queue (heap x r) = q_queue (heap d r)" for x
  proof -
    have "blocked x r" using assms that by (simp add: blocked_def)
    then show ?thesis using blocked_not_pending loop_heap_other that(3) by metis
  qed
  show ?thesis
    using Some ct by (auto simp: resumeData_def Let_def intro!: A split: sum.split if_splits)
qed

lemma step_queue_grows:
  assumes "blocked d r" and "r < allocated d"
  shows "\<exists>ts. q_queue (heap (step i e d) r) = q_queue (heap d r) @ ts"
proof (cases e)
  case (Send l n b)
  then show ?thesis using send_queue_grows[OF assms(1)] by simp
next
  case (SendControlMessage l n opc)
  then show ?thesis
    using sendControlMessage_heap_other[OF blocked_not_pending[OF assms(1)]] by simp
next
  case (HandleControlMessage l n opc)
  then show ?thesis by (simp add: handleControlMessage_def split: option.split)
next
  case (AddChannel l n)
  then show ?thesis using assms(2) by (simp add: addChannel_def Let_def)
next
  case (ChannelClosed r')
  then show ?thesis by (simp add: removeQueue_def)
next
  case (ResumeData out now)
  then show ?thesis using resumeData_queue_same[OF assms(1)] by simp
next
  case (ResumeControl out)
  then show ?thesis
    using resumeControl_heap_other[OF blocked_not_pending[OF assms(1)]] by simp
qed

lemma step_queues_allocated:
  "r < allocated d \<Longrightarrow> r < allocated (step i e d)"
  "r < allocated d \<Longrightarrow> r \<notin> set (queues d) \<Longrightarrow> r \<notin> set (queues (step i e d))"
proof -
  have al: "allocated d \<le> allocated (step i e d)"
    by (cases e) (auto simp: send_def enqueue_def Let_def split_beta processQueues_frame
        sendControlMessage_frame handleControlMessage_def addChannel_def removeQueue_def
        resumeData_def loop_frame resumeControl_frame split: option.split sum.split)
  show "r < allocated d \<Longrightarrow> r < allocated (step i e d)" using al by simp
  show "r < allocated d \<Longrightarrow> r \<notin> set (queues d) \<Longrightarrow> r \<notin> set (queues (step i e d))"
    by (cases e) (auto simp: send_def enqueue_def Let_def split_beta processQueues_frame
        sendControlMessage_frame handleControlMessage_def addChannel_def removeQueue_def
        resumeData_def loop_frame resumeControl_frame split: option.split sum.split
        dest: notin_set_remove1)
qed

lemma abandoned_run:
  assumes "Inv d" "r < allocated d" "r \<notin> set (queues d)" "task \<in> set (q_queue (heap d r))"
  shows "promises (run i es d) (resolver task) = Pending"
  using assms
proof (induction es arbitrary: d)
  case Nil
  then have "resolver task \<in> set (qs d r)" by (simp add: qs_def)
  then show ?case using Nil(1) by (auto simp: Inv_def)
next
  case (Cons e es)
  have b: "blocked d r" using Cons.prems(3) by (simp add: blocked_def)
  obtain ts where "q_queue (heap (step i e d) r) = q_queue (heap d r) @ ts"
    using step_queue_grows[OF b Cons.prems(2)] by blast
  then have "task \<in> set (q_queue (heap (step i e d) r))" using Cons.prems(4) by simp
  from Cons.IH[OF Inv_step[OF Cons.prems(1)] step_queues_allocated(1)[OF Cons.prems(2)]
      step_queues_allocated(2)[OF Cons.prems(2,3)] this]
  show ?case by simp
qed

subsection \<open>The candidate of a pass\<close>

lemma insort_key_hd:
  "hd (insort_key f x ys) = (if ys = [] \<or> f x \<le> f (hd ys) then x else hd ys)"
  by (cases ys) auto

lemma hd_sort_key_split:
  fixes f :: "'a \<Rightarrow> int"
  assumes "xs \<noteq> []"
  shows "\<exists>ys zs. xs = ys @ hd (sort_key f xs) # zs
           \<and> (\<forall>y\<in>set ys. f (hd (sort_key f xs)) < f y)
           \<and> (\<forall>z\<in>set zs. f (hd (sort_key f xs)) \<le> f z)"
  using assms
proof (induction xs)
  case Nil
  then show ?case by simp
next
  case (Cons x xs)
  show ?case
  proof (cases "xs = []")
    case True
    show ?thesis unfolding True
      by (rule exI[of _ "[]"], rule exI[of _ "[]"]) simp
  next
    case False
    let ?m = "hd (sort_key f xs)"
    from Cons.IH[OF False] obtain ys zs where
      d: "xs = ys @ ?m # zs" "\<forall>y\<in>set ys. f ?m < f y" "\<forall>z\<in>set zs. f ?m \<le> f z"
      by blast
    have ne: "sort_key f xs \<noteq> []" using False by (rule sort_key_nonempty)
    have h: "hd (sort_key f (x # xs)) = (if f x \<le> f ?m then x else ?m)"
      using ne by (simp add: insort_key_hd)
    show ?thesis
    proof (cases "f x \<le> f ?m")
      case True
      have "\<forall>z\<in>set xs. f x \<le> f z"
      proof
        fix z assume "z \<in> set xs"
        then have "z \<in> set (ys @ ?m # zs)" using d(1) by simp
        then have "z \<in> set ys \<or> z = ?m \<or> z \<in> set zs" by auto
        then have "f ?m \<le> f z" using d(2,3) by force
        then show "f x \<le> f z" using True by simp
      qed
      then show ?thesis unfolding h using True
        by (intro exI[of _ "[]"] exI[of _ xs]) simp
    next
      case False
      have "x # xs = (x # ys) @ ?m # zs" using d(1) by simp
      then show ?thesis unfolding h using False d(2,3)
        by (intro exI[of _ "x # ys"] exI[of _ zs]) simp
    qed
  qed
qed

subsection \<open>Resuming the data loop\<close>

lemma loop_heap_fields:
  "q_local (heap (processQueues_loop d) r) = q_local (heap d r)"
  "q_id (heap (processQueues_loop d) r) = q_id (heap d r)"
  "remoteFull (heap (processQueues_loop d) r) = remoteFull (heap d r)"
  "lastSendTime (heap (processQueues_loop d) r) = lastSendTime (heap d r)"
  by (simp_all add: processQueues_loop_alt Let_def)

lemma frame_opcode_byte: "frame_opcode i q \<le> 255"
  by (cases i) (simp_all add: frame_opcode_def opcodes)

lemma resumeData_sent:
  assumes "dataAwait d = Some (c, task)"
    and "toBuffer \<lparr>m_opcode = frame_opcode i (heap d c), m_local = q_local (heap d c),
                    m_id = q_id (heap d c), m_data = Some (t_data task)\<rparr> = Inr b"
  shows "resumeData i Sent now d =
           processQueues_loop
             (d\<lparr>dataAwait := None, heap := (heap d)(c := (heap d c)\<lparr>lastSendTime := now\<rparr>),
                promises := settle (resolver task) Resolved (promises d),
                wire := wire d @ [b]\<rparr>)"
  using assms by (simp add: resumeData_def Let_def)

lemma Inv_inflight_pending:
  "Inv d \<Longrightarrow> dataAwait d = Some (c, task) \<Longrightarrow> promises d (resolver task) = Pending"
  by (simp add: Inv_def inflight_def)

lemma resumeData_impl:
  assumes "dataAwait d = Some (c, task)"
    and "q_local (heap d c) \<or> lastSendTime (heap d c) \<noteq> 0"
  shows "resumeData DispatcherTs out now d = resumeData IndexTs out now d"
proof -
  have "frame_opcode DispatcherTs (heap d c) = frame_opcode IndexTs (heap d c)"
    using assms(2) by (auto simp: frame_opcode_def)
  then show ?thesis using assms(1) by (simp add: resumeData_def)
qed

lemma loop_wire_update:
  "processQueues_loop (d\<lparr>wire := w\<rparr>) = (processQueues_loop d)\<lparr>wire := w\<rparr>"
  by (simp add: processQueues_loop_alt pending_def candidate_def Let_def)

lemma resumeData_upto_wire:
  "resumeData DispatcherTs out now d
     = (resumeData IndexTs out now d)\<lparr>wire := wire (resumeData DispatcherTs out now d)\<rparr>"
proof (cases "dataAwait d")
  case None
  then show ?thesis by (simp add: resumeData_def)
next
  case (Some ct)
  obtain c task where ct: "ct = (c, task)" by (cases ct)
  have up: "processQueues_loop (x\<lparr>wire := w\<rparr>)
      = (processQueues_loop (x\<lparr>wire := w'\<rparr>))\<lparr>wire := wire (processQueues_loop (x\<lparr>wire := w\<rparr>))\<rparr>"
    for x w w' by (simp add: loop_wire_update)
  show ?thesis
    using Some ct
    by (auto simp: resumeData_def Let_def codec_defs frame_opcode_def opcodes loop_wire_update
        split: sum.split)
qed

lemma loop_cases:
  "heap (processQueues_loop d) = heap d \<and> dataAwait (processQueues_loop d) = dataAwait d
   \<or> (\<exists>c t ts. q_queue (heap d c) = t # ts
         \<and> heap (processQueues_loop d) = (heap d)(c := (heap d c)\<lparr>q_queue := ts\<rparr>)
         \<and> dataAwait (processQueues_loop d) = Some (c, t))"
proof (cases "processingControlQueue d \<or> pending d = []")
  case True
  then show ?thesis by (auto simp: processQueues_loop_alt)
next
  case False
  then have "q_queue (heap d (candidate d)) \<noteq> []"
    using candidate_pending pending_subset by blast
  then obtain t ts where "q_queue (heap d (candidate d)) = t # ts"
    by (cases "q_queue (heap d (candidate d))") auto
  then show ?thesis using False by (simp add: processQueues_loop_alt Let_def)
qed

lemma processQueues_cases:
  "heap (processQueues d) = heap d \<and> dataAwait (processQueues d) = dataAwait d
   \<or> (\<exists>c t ts. q_queue (heap d c) = t # ts
         \<and> heap (processQueues d) = (heap d)(c := (heap d c)\<lparr>q_queue := ts\<rparr>)
         \<and> dataAwait (processQueues d) = Some (c, t))"
  using loop_cases[of "d\<lparr>processingQueues := True\<rparr>"]
  by (cases "processingQueues d") (simp_all add: processQueues_def)

lemma findQueue_None:
  "findQueue local ident d = None \<longleftrightarrow>
     (\<forall>r\<in>set (queues d). \<not> (q_local (heap d r) = local \<and> q_id (heap d r) = ident))"
  by (auto simp: findQueue_def find_None_iff)

lemma loop_stopped:
  "processingControlQueue d \<Longrightarrow> processQueues_loop d = d\<lparr>processingQueues := False\<rparr>"
  by (simp add: processQueues_loop_alt)

lemma find_first:
  assumes "xs = ys @ r # zs" "\<forall>y\<in>set ys. \<not> P y" "P r"
  shows "find P xs = Some r"
  using assms by (induction ys arbitrary: xs) auto

lemma loop_selects_not_full:
  assumes "dataAwait d = None" "dataAwait (processQueues_loop d) = Some (c, task)"
  shows "\<not> remoteFull (heap d c) \<and> c \<in> set (queues d)"
proof (cases "processingControlQueue d \<or> pending d = []")
  case True
  then have "processQueues_loop d = d\<lparr>processingQueues := False\<rparr>"
    by (auto simp: processQueues_loop_alt)
  then show ?thesis using assms by simp
next
  case False
  then have "c = candidate d" using assms(2) by (simp add: processQueues_loop_alt Let_def)
  then show ?thesis using False candidate_pending pending_subset by blast
qed

lemma resumeData_sent_effect:
  assumes "Inv d" and "dataAwait d = Some (c, task)" and "q_id (heap d c) < 2 ^ 32"
  shows "\<exists>frame.
           toBuffer \<lparr>m_opcode = frame_opcode i (heap d c),
                     m_local = q_local (heap d c), m_id = q_id (heap d c),
                     m_data = Some (t_data task)\<rparr> = Inr frame
         \<and> wire (resumeData i Sent now d) = wire d @ [frame]
         \<and> lastSendTime (heap (resumeData i Sent now d) c) = now
         \<and> promises (resumeData i Sent now d) (resolver task) = Resolved"
proof -
  let ?m = "\<lparr>m_opcode = frame_opcode i (heap d c), m_local = q_local (heap d c),
              m_id = q_id (heap d c), m_data = Some (t_data task)\<rparr>"
  have p: "promises d (resolver task) = Pending"
    using assms(1,2) by (rule Inv_inflight_pending)
  have "m_opcode ?m \<le> 255" "m_id ?m \<le> 4294967295"
    using assms(3) frame_opcode_byte by simp_all
  from toBuffer_ok[OF this] obtain b where b: "toBuffer ?m = Inr b" by blast
  note r = resumeData_sent[OF assms(2) b]
  have "wire (resumeData i Sent now d) = wire d @ [b]"
    "lastSendTime (heap (resumeData i Sent now d) c) = now"
    "promises (resumeData i Sent now d) (resolver task) = Resolved"
    using p by (simp_all add: r loop_frame loop_heap_fields settle_def)
  then show ?thesis using b by blast
qed

text \<open>
  Apart from the opcode of the first frame of a remotely created channel, resuming the data
  loop does the same in the two files.
\<close>

lemma dispatchers_agree_up_to_first_remote_opcode:
  "resumeData DispatcherTs out now d
     = (resumeData IndexTs out now d)\<lparr>wire := wire (resumeData DispatcherTs out now d)\<rparr>
   \<and> (\<forall>c task. dataAwait d = Some (c, task) \<longrightarrow>
        (q_local (heap d c) \<or> lastSendTime (heap d c) \<noteq> 0 \<longrightarrow>
           wire (resumeData DispatcherTs out now d) = wire (resumeData IndexTs out now d))
      \<and> (\<not> q_local (heap d c) \<and> lastSendTime (heap d c) = 0 \<and> q_id (heap d c) < 2 ^ 32 \<longrightarrow>
           (\<exists>rest. wire (resumeData IndexTs Sent now d) = wire d @ [of_nat CreateChannel # rest]
                \<and> wire (resumeData DispatcherTs Sent now d) = wire d @ [of_nat Data # rest]
                \<and> parse (of_nat CreateChannel # rest)
                    = Inr \<lparr>m_opcode = CreateChannel, m_local = False, m_id = q_id (heap d c),
                           m_data = Some (t_data task)\<rparr>
                \<and> parse (of_nat Data # rest)
                    = Inr \<lparr>m_opcode = Data, m_local = False, m_id = q_id (heap d c),
                           m_data = Some (t_data task)\<rparr>)))"
proof (intro conjI allI impI)
  show "resumeData DispatcherTs out now d
     = (resumeData IndexTs out now d)\<lparr>wire := wire (resumeData DispatcherTs out now d)\<rparr>"
    by (rule resumeData_upto_wire)
next
  fix c task
  assume "dataAwait d = Some (c, task)" "q_local (heap d c) \<or> lastSendTime (heap d c) \<noteq> 0"
  then show "wire (resumeData DispatcherTs out now d) = wire (resumeData IndexTs out now d)"
    by (simp add: resumeData_impl)
next
  fix c task
  assume a: "dataAwait d = Some (c, task)"
    and b: "\<not> q_local (heap d c) \<and> lastSendTime (heap d c) = 0 \<and> q_id (heap d c) < 2 ^ 32"
  let ?n = "q_id (heap d c)"
  let ?rest = "[1, of_nat (?n div 16777216), of_nat (?n div 65536), of_nat (?n div 256), of_nat ?n]
                @ t_data task :: byte list"
  have n: "?n \<le> 4294967295" using b by simp
  have t: "toBuffer \<lparr>m_opcode = opc, m_local = False, m_id = ?n, m_data = Some (t_data task)\<rparr>
             = Inr (of_nat opc # ?rest)" if "opc \<le> 255" for opc
    using that n by (simp add: toBuffer_ok payload_def)
  have o: "frame_opcode IndexTs (heap d c) = CreateChannel"
    "frame_opcode DispatcherTs (heap d c) = Data"
    using b by (simp_all add: frame_opcode_def)
  have 1: "wire (resumeData IndexTs Sent now d) = wire d @ [of_nat CreateChannel # ?rest]"
    using resumeData_sent[OF a, of IndexTs "of_nat CreateChannel # ?rest" now] b t[of CreateChannel]
    by (simp add: o loop_frame CreateChannel_def)
  have 2: "wire (resumeData DispatcherTs Sent now d) = wire d @ [of_nat Data # ?rest]"
    using resumeData_sent[OF a, of DispatcherTs "of_nat Data # ?rest" now] b t[of Data]
    by (simp add: o loop_frame Data_def)
  have 3: "parse (of_nat opc # ?rest)
      = Inr \<lparr>m_opcode = opc, m_local = False, m_id = ?n, m_data = Some (t_data task)\<rparr>"
    if "opc \<le> 255" for opc
  proof -
    have "unat (of_nat opc :: byte) = opc" using that by (simp add: unat_of_nat)
    then show ?thesis using u32_bytes[OF n] by (simp add: parse_ok)
  qed
  show "\<exists>rest. wire (resumeData IndexTs Sent now d) = wire d @ [of_nat CreateChannel # rest]
                \<and> wire (resumeData DispatcherTs Sent now d) = wire d @ [of_nat Data # rest]
                \<and> parse (of_nat CreateChannel # rest)
                    = Inr \<lparr>m_opcode = CreateChannel, m_local = False, m_id = q_id (heap d c),
                           m_data = Some (t_data task)\<rparr>
                \<and> parse (of_nat Data # rest)
                    = Inr \<lparr>m_opcode = Data, m_local = False, m_id = q_id (heap d c),
                           m_data = Some (t_data task)\<rparr>"
    using 1 2 3[of CreateChannel] 3[of Data] by (intro exI[of _ ?rest]) (simp add: opcodes)
qed

section \<open>Properties of the connection and of the example states\<close>

lemmas connection_defs =
  new_connection_def initialzeChannel_def connection_addChannel_def channel_closed_def
  final_def writable_idle_def channel_end_def push_def findChannel_def onMessage_def split_beta

lemma onMessage_flow_control:
  assumes "parse buffer = Inr m"
    and "m_opcode m = ChannelBufferFull \<or> m_opcode m = ChannelBufferEmpty"
  shows "onMessage result buffer c =
           Inr (c\<lparr>dispatcher := handleControlMessage (\<not> m_local m) (m_id m) (m_opcode m)
                                   (dispatcher c)\<rparr>)"
  using assms by (auto simp: onMessage_def opcodes)

lemma findChannel_first:
  assumes "channels c = ys @ r # zs"
    and "\<forall>y\<in>set ys. \<not> (c_local (chans c y) \<noteq> m_local m \<and> c_id (chans c y) = m_id m)"
    and "c_local (chans c r) \<noteq> m_local m" and "c_id (chans c r) = m_id m"
  shows "findChannel m c = Some r"
  unfolding findChannel_def using assms by (intro find_first[of _ ys r zs]) auto

lemma final_effect:
  "controlQueue (dispatcher (final r c))
     = controlQueue (dispatcher c)
       @ [\<lparr>m_opcode = CloseChannel, m_local = c_local (chans c r), m_id = c_id (chans c r),
           m_data = None\<rparr>]"
  "channels (final r c) = remove1 r (channels c)"
  "queues (dispatcher (final r c)) = remove1 (c_queue (chans c r)) (queues (dispatcher c))"
  "chans (final r c) = chans c"
  by (simp_all add: final_def channel_closed_def removeQueue_def sendControlMessage_frame)

lemma busy_facts:
  "queues (dispatcher busy_connection) = [0]"
  "q_local (heap (dispatcher busy_connection) 0)"
  "q_id (heap (dispatcher busy_connection) 0) = 0"
  "allocated (dispatcher busy_connection) = 1"
  "dataAwait (dispatcher busy_connection) = Some (0, \<lparr>resolver = 1, t_data = [2]\<rparr>)"
  "wire (dispatcher busy_connection) = [[0, 0, 0, 0, 0, 0, 1]]"
  "lastSendTime (heap (dispatcher busy_connection) 0) = 5"
  "q_queue (heap (dispatcher busy_connection) 0) = []"
  by (simp_all add: busy_connection_def connection_defs dispatcher_defs codec_defs opcodes)

lemma full_frame: "parse [3, 1, 0, 0, 0, 0]
    = Inr \<lparr>m_opcode = ChannelBufferFull, m_local = False, m_id = 0, m_data = Some []\<rparr>"
  by (simp add: parse_ok opcodes)

lemma full_connection_eq:
  "full_connection = busy_connection
     \<lparr>dispatcher := (dispatcher busy_connection)
        \<lparr>heap := (heap (dispatcher busy_connection))
           (0 := (heap (dispatcher busy_connection) 0)\<lparr>remoteFull := True\<rparr>)\<rparr>\<rparr>"
  by (simp add: full_connection_def onMessage_def full_frame opcodes handleControlMessage_def
      findQueue_def busy_facts)

lemma open_facts:
  "channels open_connection = [0]"
  "c_local (chans open_connection 0) = False"
  "c_id (chans open_connection 0) = 5"
  "c_queue (chans open_connection 0) = 0"
  "\<not> c_ending (chans open_connection 0)"
  "emitted open_connection = [(0, Some [104, 105])]"
  "queues (dispatcher open_connection) = [0]"
  "controlQueue (dispatcher open_connection) = []"
  "wire (dispatcher open_connection) = []"
  "writable_idle 0 open_connection"
  by (simp_all add: open_connection_def connection_defs dispatcher_defs parse_ok opcodes)

lemma close_frame: "parse [1, 0, 0, 0, 0, 5]
    = Inr \<lparr>m_opcode = CloseChannel, m_local = True, m_id = 5, m_data = Some []\<rparr>"
  by (simp add: parse_ok opcodes)

section \<open>The claims\<close>

text \<open>
  C1, as the code has it. An inbound \<open>CloseChannel\<close> frame is dispatched to the first channel
  of the table whose creation flag is the complement of the frame's flag and whose id is
  the frame's. When that channel has not been ended before and none of its writes is
  waiting, the dispatch ends it through \<open>end()\<close>, which runs the \<open>_final\<close> hook as a local
  close does: exactly one \<open>CloseChannel\<close> message with the channel's own flag and id is
  appended to the control queue, and the channel and its send queue leave their tables.
\<close>

theorem inbound_close_enqueues_close:
  assumes "parse buffer = Inr m" and "m_opcode m = CloseChannel"
    and "channels c = ys @ r # zs"
    and "\<forall>y\<in>set ys. \<not> (c_local (chans c y) \<noteq> m_local m \<and> c_id (chans c y) = m_id m)"
    and "c_local (chans c r) \<noteq> m_local m" and "c_id (chans c r) = m_id m"
    and "\<not> c_ending (chans c r)" and "writable_idle r c"
  shows "\<exists>c'. onMessage result buffer c = Inr c'
           \<and> controlQueue (dispatcher c')
               = controlQueue (dispatcher c)
                 @ [\<lparr>m_opcode = CloseChannel, m_local = c_local (chans c r),
                     m_id = c_id (chans c r), m_data = None\<rparr>]
           \<and> channels c' = remove1 r (channels c)
           \<and> queues (dispatcher c') = remove1 (c_queue (chans c r)) (queues (dispatcher c))
           \<and> c_ending (chans c' r)"
proof -
  let ?c1 = "c\<lparr>chans := (chans c)(r := (chans c r)\<lparr>c_ending := True\<rparr>)\<rparr>"
  have f: "findChannel m c = Some r" using assms(3-6) by (rule findChannel_first)
  have e: "channel_end r c = final r ?c1"
    using assms(7,8) by (simp add: channel_end_def Let_def)
  have "onMessage result buffer c = Inr (final r ?c1)"
    using assms(1,2) f e by (simp add: onMessage_def opcodes)
  then show ?thesis by (intro exI[of _ "final r ?c1"]) (simp add: final_effect)
qed

theorem inbound_close_enqueues_close_witness:
  "parse [1, 0, 0, 0, 0, 5]
     = Inr \<lparr>m_opcode = CloseChannel, m_local = True, m_id = 5, m_data = Some []\<rparr>
   \<and> channels open_connection = [0]
   \<and> c_local (chans open_connection 0) = False \<and> c_id (chans open_connection 0) = 5
   \<and> \<not> c_ending (chans open_connection 0) \<and> writable_idle 0 open_connection
   \<and> (\<exists>c'. onMessage True [1, 0, 0, 0, 0, 5] open_connection = Inr c'
         \<and> controlQueue (dispatcher c')
             = [\<lparr>m_opcode = CloseChannel, m_local = False, m_id = 5, m_data = None\<rparr>]
         \<and> channels c' = [] \<and> queues (dispatcher c') = [])"
proof -
  let ?m = "\<lparr>m_opcode = CloseChannel, m_local = True, m_id = 5, m_data = Some []\<rparr>"
  have h2: "m_opcode ?m = CloseChannel" by simp
  have h3: "channels open_connection = [] @ 0 # []" by (simp add: open_facts)
  have h4: "\<forall>y\<in>set []. \<not> (c_local (chans open_connection y) \<noteq> m_local ?m
                            \<and> c_id (chans open_connection y) = m_id ?m)" by simp
  have h5: "c_local (chans open_connection 0) \<noteq> m_local ?m" by (simp add: open_facts)
  have h6: "c_id (chans open_connection 0) = m_id ?m" by (simp add: open_facts)
  from inbound_close_enqueues_close
    [OF close_frame h2 h3 h4 h5 h6 open_facts(5) open_facts(10), of True]
  obtain c' where "onMessage True [1, 0, 0, 0, 0, 5] open_connection = Inr c'"
    "controlQueue (dispatcher c') = controlQueue (dispatcher open_connection)
       @ [\<lparr>m_opcode = CloseChannel, m_local = c_local (chans open_connection 0),
           m_id = c_id (chans open_connection 0), m_data = None\<rparr>]"
    "channels c' = remove1 0 (channels open_connection)"
    "queues (dispatcher c') = remove1 (c_queue (chans open_connection 0)) (queues (dispatcher open_connection))"
    by (elim exE conjE)
  then have "\<exists>c'. onMessage True [1, 0, 0, 0, 0, 5] open_connection = Inr c'
         \<and> controlQueue (dispatcher c')
             = [\<lparr>m_opcode = CloseChannel, m_local = False, m_id = 5, m_data = None\<rparr>]
         \<and> channels c' = [] \<and> queues (dispatcher c') = []"
    by (intro exI[of _ c']) (simp add: open_facts)
  then show ?thesis
    by (intro conjI) (rule close_frame open_facts(1,2,3,5,10) | assumption)+
qed

text \<open>
  C1 as stated fails: a connection holds the channel that an inbound \<open>CreateChannel\<close> frame
  with id 5 has made, its control queue is empty, and the inbound \<open>CloseChannel\<close> frame for
  that channel leaves a \<open>CloseChannel\<close> message on the control queue, which the control loop
  then sends to the peer.
\<close>

theorem inbound_close_echo_counterexample:
  "channels open_connection = [0]
   \<and> c_local (chans open_connection 0) = (\<not> True) \<and> c_id (chans open_connection 0) = 5
   \<and> controlQueue (dispatcher open_connection) = []
   \<and> parse [1, 0, 0, 0, 0, 5]
       = Inr \<lparr>m_opcode = CloseChannel, m_local = True, m_id = 5, m_data = Some []\<rparr>
   \<and> controlQueue (dispatcher (projr (onMessage True [1, 0, 0, 0, 0, 5] open_connection)))
       = [\<lparr>m_opcode = CloseChannel, m_local = False, m_id = 5, m_data = None\<rparr>]
   \<and> channels (projr (onMessage True [1, 0, 0, 0, 0, 5] open_connection)) = []
   \<and> wire (resumeControl Sent
             (dispatcher (projr (onMessage True [1, 0, 0, 0, 0, 5] open_connection))))
       = [[1, 1, 0, 0, 0, 5]]"
proof -
  have c: "onMessage True [1, 0, 0, 0, 0, 5] open_connection
      = Inr (final 0 (open_connection
               \<lparr>chans := (chans open_connection)(0 := (chans open_connection 0)\<lparr>c_ending := True\<rparr>)\<rparr>))"
    by (simp add: onMessage_def close_frame opcodes findChannel_def open_facts channel_end_def)
  have w: "wire (resumeControl Sent
             (dispatcher (projr (onMessage True [1, 0, 0, 0, 0, 5] open_connection))))
       = [[1, 1, 0, 0, 0, 5]]"
    unfolding c
    by (simp add: open_connection_def connection_defs dispatcher_defs codec_defs parse_ok opcodes)
  show ?thesis
    using w by (simp add: c final_effect open_facts close_frame)
qed

text \<open>
  C2, as the code has it. In every state that the dispatcher of
  \<open>multiplex-websocket-dispatcher.ts\<close> reaches, when the data loop is suspended with a
  dequeued write of a queue whose id fits 32 bits and the send goes through, the frame sent
  carries the queue's flag and id and the write's data; its opcode is \<open>CreateChannel\<close> if and
  only if the queue was created locally and its \<open>lastSendTime\<close> is 0, and \<open>Data\<close> otherwise.
  After the send \<open>lastSendTime\<close> is the current time and the promise of the write is
  resolved.
\<close>

theorem data_frame_opcode:
  assumes "d = run DispatcherTs es new_dispatcher" and "dataAwait d = Some (c, task)"
    and "q_id (heap d c) < 2 ^ 32"
  shows "\<exists>frame.
           toBuffer \<lparr>m_opcode = (if q_local (heap d c) \<and> lastSendTime (heap d c) = 0
                                  then CreateChannel else Data),
                     m_local = q_local (heap d c), m_id = q_id (heap d c),
                     m_data = Some (t_data task)\<rparr> = Inr frame
         \<and> wire (resumeData DispatcherTs Sent now d) = wire d @ [frame]
         \<and> lastSendTime (heap (resumeData DispatcherTs Sent now d) c) = now
         \<and> promises (resumeData DispatcherTs Sent now d) (resolver task) = Resolved"
proof -
  have "Inv d" unfolding assms(1) by (rule Inv_run[OF Inv_new])
  from resumeData_sent_effect[OF this assms(2,3), of DispatcherTs now]
  show ?thesis by (simp add: frame_opcode_def)
qed

theorem data_frame_opcode_witness:
  "dataAwait local_first = Some (0, \<lparr>resolver = 0, t_data = [6]\<rparr>)
   \<and> q_local (heap local_first 0) \<and> lastSendTime (heap local_first 0) = 0
   \<and> wire (resumeData DispatcherTs Sent 1000 local_first) = [[0, 0, 0, 0, 0, 4, 6]]
   \<and> lastSendTime (heap (resumeData DispatcherTs Sent 1000 local_first) 0) = 1000
   \<and> promises (resumeData DispatcherTs Sent 1000 local_first) 0 = Resolved"
proof -
  have h2: "dataAwait local_first = Some (0, \<lparr>resolver = 0, t_data = [6]\<rparr>)"
    by (simp add: local_first_def dispatcher_defs)
  have f: "lastSendTime (heap local_first 0) = 0" "q_local (heap local_first 0)"
    "q_id (heap local_first 0) = 4" "wire local_first = []"
    by (simp_all add: local_first_def dispatcher_defs)
  have h3: "q_id (heap local_first 0) < 2 ^ 32" by (simp add: f)
  from data_frame_opcode [OF local_first_def h2 h3, of 1000]
  show ?thesis using h2 f by (auto simp: codec_defs opcodes)
qed

text \<open>
  C2 as stated fails in \<open>multiplex-websocket-dispatcher.ts\<close>: the first frame of a remotely
  created channel is sent with \<open>lastSendTime\<close> 0 and has the opcode \<open>Data\<close>.
\<close>

theorem data_frame_opcode_counterexample:
  "dataAwait remote_first = Some (0, \<lparr>resolver = 0, t_data = [9]\<rparr>)
   \<and> lastSendTime (heap remote_first 0) = 0
   \<and> wire (resumeData DispatcherTs Sent 1000 remote_first) = [[2, 1, 0, 0, 0, 3, 9]]
   \<and> parse [2, 1, 0, 0, 0, 3, 9]
       = Inr \<lparr>m_opcode = Data, m_local = False, m_id = 3, m_data = Some [9]\<rparr>
   \<and> Data \<noteq> CreateChannel"
  by (simp add: remote_first_def dispatcher_defs codec_defs opcodes parse_ok)

text \<open>
  C3, as the code has it. An inbound \<open>ChannelBufferFull\<close> or \<open>ChannelBufferEmpty\<close> frame with
  origin flag \<open>o\<close> and id \<open>n\<close> changes at most one queue: the first queue of the table whose
  creation flag is the complement of \<open>o\<close> and whose id is \<open>n\<close>. Its \<open>remoteFull\<close> becomes true
  for \<open>ChannelBufferFull\<close> and false for \<open>ChannelBufferEmpty\<close>; every other queue, and the
  whole dispatcher when no queue matches, stays as it was. While \<open>remoteFull\<close> of a queue is
  true no event takes a task out of it (its list of tasks can only grow at the end), and a
  pass of the data loop never selects it.
\<close>

theorem remoteFull_flow_control:
  "(parse buffer = Inr m \<and> (m_opcode m = ChannelBufferFull \<or> m_opcode m = ChannelBufferEmpty) \<longrightarrow>
      (\<exists>d'. onMessage result buffer c = Inr (c\<lparr>dispatcher := d'\<rparr>)
         \<and> ((\<forall>r\<in>set (queues (dispatcher c)).
                \<not> (q_local (heap (dispatcher c) r) = (\<not> m_local m)
                    \<and> q_id (heap (dispatcher c) r) = m_id m)) \<longrightarrow> d' = dispatcher c)
         \<and> (\<forall>ys r zs. queues (dispatcher c) = ys @ r # zs
                \<and> (\<forall>y\<in>set ys. \<not> (q_local (heap (dispatcher c) y) = (\<not> m_local m)
                                    \<and> q_id (heap (dispatcher c) y) = m_id m))
                \<and> q_local (heap (dispatcher c) r) = (\<not> m_local m)
                \<and> q_id (heap (dispatcher c) r) = m_id m \<longrightarrow>
              d' = (dispatcher c)
                     \<lparr>heap := (heap (dispatcher c))
                        (r := (heap (dispatcher c) r)
                                \<lparr>remoteFull := (m_opcode m = ChannelBufferFull)\<rparr>)\<rparr>
              \<and> remoteFull (heap d' r) = (m_opcode m = ChannelBufferFull)
              \<and> (\<forall>r'. r' \<noteq> r \<longrightarrow> heap d' r' = heap (dispatcher c) r'))))
   \<and> (remoteFull (heap d r) \<and> r < allocated d \<longrightarrow>
        (\<exists>ts. q_queue (heap (step i e d) r) = q_queue (heap d r) @ ts))
   \<and> (dataAwait d0 = None \<and> remoteFull (heap d0 r0) \<longrightarrow>
        (\<forall>task. dataAwait (processQueues_loop d0) \<noteq> Some (r0, task)))"
proof (intro conjI impI)
  assume a: "parse buffer = Inr m \<and> (m_opcode m = ChannelBufferFull \<or> m_opcode m = ChannelBufferEmpty)"
  let ?d = "dispatcher c"
  let ?P = "\<lambda>r. q_local (heap ?d r) = (\<not> m_local m) \<and> q_id (heap ?d r) = m_id m"
  let ?d' = "handleControlMessage (\<not> m_local m) (m_id m) (m_opcode m) ?d"
  have 1: "onMessage result buffer c = Inr (c\<lparr>dispatcher := ?d'\<rparr>)"
    using a onMessage_flow_control by blast
  have 2: "(\<forall>r\<in>set (queues ?d). \<not> ?P r) \<longrightarrow> ?d' = ?d"
  proof
    assume "\<forall>r\<in>set (queues ?d). \<not> ?P r"
    then have "findQueue (\<not> m_local m) (m_id m) ?d = None" unfolding findQueue_None .
    then show "?d' = ?d" by (simp add: handleControlMessage_def)
  qed
  have 3: "?d' = ?d\<lparr>heap := (heap ?d)(r := (heap ?d r)\<lparr>remoteFull := (m_opcode m = ChannelBufferFull)\<rparr>)\<rparr>
           \<and> remoteFull (heap ?d' r) = (m_opcode m = ChannelBufferFull)
           \<and> (\<forall>r'. r' \<noteq> r \<longrightarrow> heap ?d' r' = heap ?d r')"
    if "queues ?d = ys @ r # zs \<and> (\<forall>y\<in>set ys. \<not> ?P y) \<and> q_local (heap ?d r) = (\<not> m_local m)
        \<and> q_id (heap ?d r) = m_id m" for ys r zs
  proof -
    have "findQueue (\<not> m_local m) (m_id m) ?d = Some r"
      unfolding findQueue_def using that by (intro find_first[of _ ys r zs]) auto
    then show ?thesis by (simp add: handleControlMessage_def)
  qed
  show "\<exists>d'. onMessage result buffer c = Inr (c\<lparr>dispatcher := d'\<rparr>)
         \<and> ((\<forall>r\<in>set (queues ?d). \<not> ?P r) \<longrightarrow> d' = ?d)
         \<and> (\<forall>ys r zs. queues ?d = ys @ r # zs \<and> (\<forall>y\<in>set ys. \<not> ?P y)
                \<and> q_local (heap ?d r) = (\<not> m_local m) \<and> q_id (heap ?d r) = m_id m \<longrightarrow>
              d' = ?d\<lparr>heap := (heap ?d)(r := (heap ?d r)\<lparr>remoteFull := (m_opcode m = ChannelBufferFull)\<rparr>)\<rparr>
              \<and> remoteFull (heap d' r) = (m_opcode m = ChannelBufferFull)
              \<and> (\<forall>r'. r' \<noteq> r \<longrightarrow> heap d' r' = heap ?d r'))"
    using 1 2 3 by (intro exI[of _ ?d']) blast
next
  assume "remoteFull (heap d r) \<and> r < allocated d"
  then show "\<exists>ts. q_queue (heap (step i e d) r) = q_queue (heap d r) @ ts"
    using step_queue_grows[of d r i e] by (simp add: blocked_def)
next
  assume "dataAwait d0 = None \<and> remoteFull (heap d0 r0)"
  then show "\<forall>task. dataAwait (processQueues_loop d0) \<noteq> Some (r0, task)"
    using loop_selects_not_full[of d0 r0] by blast
qed

theorem remoteFull_flow_control_witness:
  "parse [3, 1, 0, 0, 0, 0]
     = Inr \<lparr>m_opcode = ChannelBufferFull, m_local = False, m_id = 0, m_data = Some []\<rparr>
   \<and> queues (dispatcher busy_connection) = [0]
   \<and> q_local (heap (dispatcher busy_connection) 0)
   \<and> q_id (heap (dispatcher busy_connection) 0) = 0
   \<and> (\<exists>d'. onMessage True [3, 1, 0, 0, 0, 0] busy_connection
              = Inr (busy_connection\<lparr>dispatcher := d'\<rparr>) \<and> remoteFull (heap d' 0))
   \<and> remoteFull (heap (dispatcher full_connection) 0)
   \<and> 0 < allocated (dispatcher full_connection)
   \<and> (\<exists>ts. q_queue (heap (step DispatcherTs (Send True 0 [3]) (dispatcher full_connection)) 0)
              = q_queue (heap (dispatcher full_connection) 0) @ ts)
   \<and> dataAwait four_queues = None \<and> remoteFull (heap four_queues 3)
   \<and> q_queue (heap four_queues 3) = [\<lparr>resolver = 3, t_data = [3]\<rparr>]
   \<and> dataAwait (processQueues_loop four_queues) \<noteq> Some (3, \<lparr>resolver = 3, t_data = [3]\<rparr>)"
proof -
  let ?m = "\<lparr>m_opcode = ChannelBufferFull, m_local = False, m_id = 0, m_data = Some []\<rparr>"
  let ?fd = "dispatcher full_connection"
  let ?bd = "dispatcher busy_connection"
  note t = remoteFull_flow_control
    [of "[3, 1, 0, 0, 0, 0]" ?m True busy_connection ?fd 0 DispatcherTs "Send True 0 [3]"
        four_queues 3]
  have a: "parse [3, 1, 0, 0, 0, 0] = Inr ?m
           \<and> (m_opcode ?m = ChannelBufferFull \<or> m_opcode ?m = ChannelBufferEmpty)"
    by (simp add: full_frame)
  from t [THEN conjunct1, THEN mp, OF a] obtain d' where d':
    "onMessage True [3, 1, 0, 0, 0, 0] busy_connection = Inr (busy_connection\<lparr>dispatcher := d'\<rparr>)
     \<and> ((\<forall>r\<in>set (queues ?bd). \<not> (q_local (heap ?bd r) = (\<not> m_local ?m) \<and> q_id (heap ?bd r) = m_id ?m))
          \<longrightarrow> d' = ?bd)
     \<and> (\<forall>ys r zs. queues ?bd = ys @ r # zs
            \<and> (\<forall>y\<in>set ys. \<not> (q_local (heap ?bd y) = (\<not> m_local ?m) \<and> q_id (heap ?bd y) = m_id ?m))
            \<and> q_local (heap ?bd r) = (\<not> m_local ?m) \<and> q_id (heap ?bd r) = m_id ?m \<longrightarrow>
          d' = ?bd\<lparr>heap := (heap ?bd)(r := (heap ?bd r)\<lparr>remoteFull := (m_opcode ?m = ChannelBufferFull)\<rparr>)\<rparr>
          \<and> remoteFull (heap d' r) = (m_opcode ?m = ChannelBufferFull)
          \<and> (\<forall>r'. r' \<noteq> r \<longrightarrow> heap d' r' = heap ?bd r'))"
    by (rule exE)
  note z = d'[THEN conjunct2, THEN conjunct2, rule_format, of "[]" 0 "[]"]
  have pre: "queues ?bd = [] @ 0 # []
            \<and> (\<forall>y\<in>set []. \<not> (q_local (heap ?bd y) = (\<not> m_local ?m) \<and> q_id (heap ?bd y) = m_id ?m))
            \<and> q_local (heap ?bd 0) = (\<not> m_local ?m) \<and> q_id (heap ?bd 0) = m_id ?m"
    by (simp add: busy_facts)
  have 1: "remoteFull (heap d' 0)" using z[OF pre] by simp
  have 0: "onMessage True [3, 1, 0, 0, 0, 0] busy_connection
            = Inr (busy_connection\<lparr>dispatcher := d'\<rparr>)" using d' by (rule conjunct1)
  have f: "remoteFull (heap ?fd 0) \<and> 0 < allocated ?fd"
    by (simp add: full_connection_eq busy_facts)
  note 2 = t [THEN conjunct2, THEN conjunct1, THEN mp, OF f]
  have g: "dataAwait four_queues = None \<and> remoteFull (heap four_queues 3)"
    by (simp add: four_queues_def new_dispatcher_def)
  have g': "q_queue (heap four_queues 3) = [\<lparr>resolver = 3, t_data = [3]\<rparr>]"
    by (simp add: four_queues_def)
  note 3 = t [THEN conjunct2, THEN conjunct2, THEN mp, OF g, rule_format,
              of "\<lparr>resolver = 3, t_data = [3]\<rparr>"]
  have e: "\<exists>d'. onMessage True [3, 1, 0, 0, 0, 0] busy_connection
              = Inr (busy_connection\<lparr>dispatcher := d'\<rparr>) \<and> remoteFull (heap d' 0)"
    using 0 1 by (intro exI[of _ d']) simp
  show ?thesis
    by (intro conjI) (rule full_frame busy_facts(1,2,3) e f[THEN conjunct1] f[THEN conjunct2] 2
       g[THEN conjunct1] g[THEN conjunct2] g' 3)+
qed

text \<open>
  C3 as stated fails twice. A write that was dequeued before the \<open>ChannelBufferFull\<close> frame
  arrived is still sent, as a \<open>Data\<close> frame of that channel, while \<open>remoteFull\<close> is true. And
  when two queues of the table have the flag and the id of the frame, only the first one is
  marked.
\<close>

theorem remoteFull_inflight_counterexample:
  "remoteFull (heap (dispatcher full_connection) 0)
   \<and> q_local (heap (dispatcher full_connection) 0)
   \<and> q_id (heap (dispatcher full_connection) 0) = 0
   \<and> wire (resumeData DispatcherTs Sent 6 (dispatcher full_connection))
       = wire (dispatcher full_connection) @ [[2, 0, 0, 0, 0, 0, 2]]
   \<and> parse [2, 0, 0, 0, 0, 0, 2]
       = Inr \<lparr>m_opcode = Data, m_local = True, m_id = 0, m_data = Some [2]\<rparr>
   \<and> remoteFull (heap (resumeData DispatcherTs Sent 6 (dispatcher full_connection)) 0)
   \<and> queues (dispatcher twin_connection) = [0, 1]
   \<and> q_local (heap (dispatcher twin_connection) 1) = (\<not> True)
   \<and> q_id (heap (dispatcher twin_connection) 1) = 0
   \<and> parse [3, 0, 0, 0, 0, 0]
       = Inr \<lparr>m_opcode = ChannelBufferFull, m_local = True, m_id = 0, m_data = Some []\<rparr>
   \<and> remoteFull (heap (dispatcher (projr (onMessage True [3, 0, 0, 0, 0, 0] twin_connection))) 0)
   \<and> \<not> remoteFull (heap (dispatcher (projr (onMessage True [3, 0, 0, 0, 0, 0] twin_connection))) 1)"
proof -
  have 1: "remoteFull (heap (dispatcher full_connection) 0)"
    "q_local (heap (dispatcher full_connection) 0)"
    "q_id (heap (dispatcher full_connection) 0) = 0"
    by (simp_all add: full_connection_eq busy_facts)
  have 2: "wire (resumeData DispatcherTs Sent 6 (dispatcher full_connection))
       = wire (dispatcher full_connection) @ [[2, 0, 0, 0, 0, 0, 2]]"
    "remoteFull (heap (resumeData DispatcherTs Sent 6 (dispatcher full_connection)) 0)"
    by (simp_all add: full_connection_eq busy_facts resumeData_def frame_opcode_def codec_defs opcodes
        loop_frame loop_heap_fields Let_def)
  have 3: "parse [2, 0, 0, 0, 0, 0, 2]
       = Inr \<lparr>m_opcode = Data, m_local = True, m_id = 0, m_data = Some [2]\<rparr>"
    "parse [3, 0, 0, 0, 0, 0]
       = Inr \<lparr>m_opcode = ChannelBufferFull, m_local = True, m_id = 0, m_data = Some []\<rparr>"
    by (simp_all add: parse_ok opcodes)
  have 4: "queues (dispatcher twin_connection) = [0, 1]"
    "q_local (heap (dispatcher twin_connection) 1) = (\<not> True)"
    "q_id (heap (dispatcher twin_connection) 1) = 0"
    "remoteFull (heap (dispatcher (projr (onMessage True [3, 0, 0, 0, 0, 0] twin_connection))) 0)"
    "\<not> remoteFull (heap (dispatcher (projr (onMessage True [3, 0, 0, 0, 0, 0] twin_connection))) 1)"
    by (simp_all add: twin_connection_def connection_defs dispatcher_defs parse_ok opcodes)
  show ?thesis using 1 2 3 4 by blast
qed

text \<open>
  C4: in a pass of the data loop that is not stopped by the control loop, the candidates
  are exactly the queues of the table that hold a task and are not \<open>remoteFull\<close>. With no
  candidate the loop ends (\<open>_processingQueues\<close> is cleared and nothing else changes).
  Otherwise the selected queue has the smallest \<open>lastSendTime\<close> of the candidates and is the
  first of them in table order to have it, exactly one task, the oldest, leaves that queue
  and is held for sending, and no other queue changes.
\<close>

theorem processQueues_loop_selects:
  assumes "\<not> processingControlQueue d"
  shows "set (pending d) = {r \<in> set (queues d). q_queue (heap d r) \<noteq> [] \<and> \<not> remoteFull (heap d r)}
       \<and> (pending d = [] \<longrightarrow> processQueues_loop d = d\<lparr>processingQueues := False\<rparr>)
       \<and> (pending d \<noteq> [] \<longrightarrow>
            (\<exists>ys zs. pending d = ys @ candidate d # zs
               \<and> (\<forall>y\<in>set ys. lastSendTime (heap d (candidate d)) < lastSendTime (heap d y))
               \<and> (\<forall>z\<in>set zs. lastSendTime (heap d (candidate d)) \<le> lastSendTime (heap d z)))
          \<and> (\<exists>task rest. q_queue (heap d (candidate d)) = task # rest
               \<and> dataAwait (processQueues_loop d) = Some (candidate d, task)
               \<and> q_queue (heap (processQueues_loop d) (candidate d)) = rest)
          \<and> (\<forall>r. r \<noteq> candidate d \<longrightarrow> heap (processQueues_loop d) r = heap d r))"
proof (intro conjI impI)
  show "set (pending d) = {r \<in> set (queues d). q_queue (heap d r) \<noteq> [] \<and> \<not> remoteFull (heap d r)}"
    by (auto simp: pending_def)
  show "pending d = [] \<Longrightarrow> processQueues_loop d = d\<lparr>processingQueues := False\<rparr>"
    by (simp add: processQueues_loop_alt)
next
  assume ne: "pending d \<noteq> []"
  show "\<exists>ys zs. pending d = ys @ candidate d # zs
               \<and> (\<forall>y\<in>set ys. lastSendTime (heap d (candidate d)) < lastSendTime (heap d y))
               \<and> (\<forall>z\<in>set zs. lastSendTime (heap d (candidate d)) \<le> lastSendTime (heap d z))"
    using hd_sort_key_split[OF ne, of "\<lambda>r. lastSendTime (heap d r)"]
    by (simp add: candidate_def)
  have "q_queue (heap d (candidate d)) \<noteq> []"
    using candidate_pending[OF ne] pending_subset by blast
  then obtain task rest where q: "q_queue (heap d (candidate d)) = task # rest"
    by (cases "q_queue (heap d (candidate d))") auto
  then show "\<exists>task rest. q_queue (heap d (candidate d)) = task # rest
               \<and> dataAwait (processQueues_loop d) = Some (candidate d, task)
               \<and> q_queue (heap (processQueues_loop d) (candidate d)) = rest"
    using assms ne by (simp add: processQueues_loop_alt Let_def)
  show "\<forall>r. r \<noteq> candidate d \<longrightarrow> heap (processQueues_loop d) r = heap d r"
    using assms ne by (simp add: processQueues_loop_alt Let_def)
qed

theorem processQueues_loop_selects_witness:
  "\<not> processingControlQueue four_queues \<and> pending four_queues = [0, 1, 2]
   \<and> candidate four_queues = 1
   \<and> (\<exists>ys zs. pending four_queues = ys @ candidate four_queues # zs
        \<and> (\<forall>y\<in>set ys. lastSendTime (heap four_queues (candidate four_queues))
                          < lastSendTime (heap four_queues y))
        \<and> (\<forall>z\<in>set zs. lastSendTime (heap four_queues (candidate four_queues))
                          \<le> lastSendTime (heap four_queues z)))
   \<and> (\<exists>task rest. q_queue (heap four_queues (candidate four_queues)) = task # rest
        \<and> dataAwait (processQueues_loop four_queues) = Some (candidate four_queues, task)
        \<and> q_queue (heap (processQueues_loop four_queues) (candidate four_queues)) = rest)"
proof -
  have h: "\<not> processingControlQueue four_queues"
    by (simp add: four_queues_def new_dispatcher_def)
  have p: "pending four_queues = [0, 1, 2]"
    by (simp add: four_queues_def pending_def)
  have c: "candidate four_queues = 1"
    by (simp add: candidate_def p) (simp add: four_queues_def)
  have ne: "pending four_queues \<noteq> []" by (simp add: p)
  from processQueues_loop_selects [OF h] ne h p c show ?thesis by blast
qed

text \<open>
  C5, as the code has it. When the data loop is suspended at the gate with a dequeued write
  and the control loop has become active, the gate opening sends that write's frame at
  once, before the waiting control messages, which stay in the control queue. Only then
  does the data loop yield: it ends at the head of its next pass without taking another
  task out of any queue.
\<close>

theorem pending_frame_sent_then_yield:
  assumes "dataAwait d = Some (c, task)" and "processingControlQueue d"
    and "q_id (heap d c) < 2 ^ 32"
  shows "\<exists>frame.
           wire (resumeData i Sent now d) = wire d @ [frame]
         \<and> parse frame = Inr \<lparr>m_opcode = frame_opcode i (heap d c), m_local = q_local (heap d c),
                               m_id = q_id (heap d c), m_data = Some (t_data task)\<rparr>
         \<and> controlQueue (resumeData i Sent now d) = controlQueue d
         \<and> dataAwait (resumeData i Sent now d) = None
         \<and> \<not> processingQueues (resumeData i Sent now d)
         \<and> (\<forall>r. q_queue (heap (resumeData i Sent now d) r) = q_queue (heap d r))"
proof -
  let ?m = "\<lparr>m_opcode = frame_opcode i (heap d c), m_local = q_local (heap d c),
              m_id = q_id (heap d c), m_data = Some (t_data task)\<rparr>"
  have "m_opcode ?m \<le> 255" "m_id ?m < 2 ^ 32" using assms(3) frame_opcode_byte by simp_all
  from parse_toBuffer_roundtrip_aux[OF this] obtain b where
    b: "toBuffer ?m = Inr b" "parse b = Inr (?m\<lparr>m_data := Some (payload ?m)\<rparr>)" by blast
  have pb: "parse b = Inr ?m" using b(2) by (simp add: payload_def)
  note r = resumeData_sent[OF assms(1) b(1), of now]
  have s: "resumeData i Sent now d =
      d\<lparr>dataAwait := None, heap := (heap d)(c := (heap d c)\<lparr>lastSendTime := now\<rparr>),
        promises := settle (resolver task) Resolved (promises d), wire := wire d @ [b],
        processingQueues := False\<rparr>"
    unfolding r using assms(2) by (simp add: loop_stopped)
  show ?thesis
    by (rule exI[of _ b]) (simp add: s pb)
qed

theorem pending_frame_sent_then_yield_witness:
  "dataAwait race = Some (0, \<lparr>resolver = 0, t_data = [1]\<rparr>) \<and> processingControlQueue race
   \<and> (\<exists>frame. wire (resumeData IndexTs Sent 5 race) = wire race @ [frame])
   \<and> dataAwait (resumeData IndexTs Sent 5 race) = None
   \<and> \<not> processingQueues (resumeData IndexTs Sent 5 race)"
proof -
  have h: "dataAwait race = Some (0, \<lparr>resolver = 0, t_data = [1]\<rparr>)" "processingControlQueue race"
    "q_id (heap race 0) < 2 ^ 32"
    by (simp_all add: race_def dispatcher_defs)
  from pending_frame_sent_then_yield [OF h, of IndexTs 5] h(1,2) show ?thesis by blast
qed

text \<open>
  C5 as stated fails: with a write held at the gate and a \<open>ChannelBufferFull\<close> message just
  submitted (the control loop is active and waits at its own gate), the data loop's gate
  opens and the data frame goes out while the control message is still queued.
\<close>

theorem data_sent_before_control_counterexample:
  "dataAwait race = Some (0, \<lparr>resolver = 0, t_data = [1]\<rparr>)
   \<and> processingControlQueue race \<and> controlAwait race
   \<and> controlQueue race
       = [\<lparr>m_opcode = ChannelBufferFull, m_local = True, m_id = 0, m_data = None\<rparr>]
   \<and> wire race = []
   \<and> wire (step IndexTs (ResumeData Sent 5) race) = [[0, 0, 0, 0, 0, 0, 1]]
   \<and> controlQueue (step IndexTs (ResumeData Sent 5) race)
       = [\<lparr>m_opcode = ChannelBufferFull, m_local = True, m_id = 0, m_data = None\<rparr>]
   \<and> controlAwait (step IndexTs (ResumeData Sent 5) race)"
  by (simp add: race_def dispatcher_defs codec_defs opcodes)

text \<open>
  C6: when no queue of the table has the given flag and id, \<open>send\<close> throws
  \<open>cannot write after end\<close> and the dispatcher is left as it was. When a queue has them,
  \<open>send\<close> returns a new promise, which is pending, nothing has been handed to the socket, and
  the new task is the last one of the queue that the lookup returns (the first matching
  queue of the table), or is already held at the gate by the data loop.
\<close>

theorem send_fails_or_enqueues:
  "((\<forall>r\<in>set (queues d). \<not> (q_local (heap d r) = local \<and> q_id (heap d r) = ident)) \<longrightarrow>
       send local ident dat d = Inl (Error ''cannot write after end'')
       \<and> step i (Send local ident dat) d = d)
   \<and> ((\<exists>r\<in>set (queues d). q_local (heap d r) = local \<and> q_id (heap d r) = ident) \<longrightarrow>
       (\<exists>r d'. findQueue local ident d = Some r
          \<and> r \<in> set (queues d) \<and> q_local (heap d r) = local \<and> q_id (heap d r) = ident
          \<and> send local ident dat d = Inr (resolvers d, d')
          \<and> promises d' (resolvers d) = Pending
          \<and> wire d' = wire d
          \<and> (q_queue (heap d' r) \<noteq> []
               \<and> last (q_queue (heap d' r)) = \<lparr>resolver = resolvers d, t_data = dat\<rparr>
             \<or> dataAwait d' = Some (r, \<lparr>resolver = resolvers d, t_data = dat\<rparr>))))"
proof (intro conjI impI)
  assume "\<forall>r\<in>set (queues d). \<not> (q_local (heap d r) = local \<and> q_id (heap d r) = ident)"
  then have "findQueue local ident d = None" by (simp add: findQueue_None)
  then show "send local ident dat d = Inl (Error ''cannot write after end'')"
    "step i (Send local ident dat) d = d"
    by (simp_all add: send_def)
next
  assume "\<exists>r\<in>set (queues d). q_local (heap d r) = local \<and> q_id (heap d r) = ident"
  then have "findQueue local ident d \<noteq> None" by (simp add: findQueue_None)
  then obtain r where r: "findQueue local ident d = Some r" by blast
  let ?t = "\<lparr>resolver = resolvers d, t_data = dat\<rparr>"
  let ?d1 = "snd (enqueue r dat d)"
  let ?d' = "processQueues ?d1"
  have s: "send local ident dat d = Inr (resolvers d, ?d')"
    using r by (simp add: send_def enqueue_def Let_def)
  have q1: "q_queue (heap ?d1 r) = q_queue (heap d r) @ [?t]"
    by (simp add: enqueue_def Let_def)
  have p: "promises ?d' (resolvers d) = Pending" "wire ?d' = wire d"
    by (simp_all add: processQueues_frame enqueue_def Let_def)
  have "q_queue (heap ?d' r) \<noteq> [] \<and> last (q_queue (heap ?d' r)) = ?t
        \<or> dataAwait ?d' = Some (r, ?t)"
    using processQueues_cases[of ?d1]
  proof (elim disjE conjE exE)
    assume "heap ?d' = heap ?d1"
    then show ?thesis using q1 by simp
  next
    fix c t ts
    assume c: "q_queue (heap ?d1 c) = t # ts"
      "heap ?d' = (heap ?d1)(c := (heap ?d1 c)\<lparr>q_queue := ts\<rparr>)"
      "dataAwait ?d' = Some (c, t)"
    show ?thesis
    proof (cases "c = r")
      case False
      then show ?thesis using c(2) q1 by simp
    next
      case True
      show ?thesis
      proof (cases "q_queue (heap d r)")
        case Nil
        then have "t = ?t" using c(1) q1 True by simp
        then show ?thesis using c(3) True by simp
      next
        case (Cons a as)
        then have "ts = as @ [?t]" using c(1) q1 True by simp
        then show ?thesis using c(2) True by simp
      qed
    qed
  qed
  then show "\<exists>r d'. findQueue local ident d = Some r
          \<and> r \<in> set (queues d) \<and> q_local (heap d r) = local \<and> q_id (heap d r) = ident
          \<and> send local ident dat d = Inr (resolvers d, d')
          \<and> promises d' (resolvers d) = Pending
          \<and> wire d' = wire d
          \<and> (q_queue (heap d' r) \<noteq> []
               \<and> last (q_queue (heap d' r)) = \<lparr>resolver = resolvers d, t_data = dat\<rparr>
             \<or> dataAwait d' = Some (r, \<lparr>resolver = resolvers d, t_data = dat\<rparr>))"
    using r findQueue_Some[OF r] s p by blast
qed

theorem send_fails_or_enqueues_witness:
  "(\<exists>r\<in>set (queues two_writes). q_local (heap two_writes r) = True \<and> q_id (heap two_writes r) = 0)
   \<and> (\<exists>d'. send True 0 [3] two_writes = Inr (2, d') \<and> promises d' 2 = Pending
         \<and> last (q_queue (heap d' 0)) = \<lparr>resolver = 2, t_data = [3]\<rparr>)
   \<and> send False 0 [3] two_writes = Inl (Error ''cannot write after end'')
   \<and> step IndexTs (Send False 0 [3]) two_writes = two_writes"
proof -
  have q: "queues two_writes = [0]" "q_local (heap two_writes 0)" "q_id (heap two_writes 0) = 0"
    "resolvers two_writes = 2"
    "dataAwait two_writes = Some (0, \<lparr>resolver = 0, t_data = [1]\<rparr>)"
    by (simp_all add: two_writes_def dispatcher_defs)
  have h1: "\<exists>r\<in>set (queues two_writes). q_local (heap two_writes r) = True \<and> q_id (heap two_writes r) = 0"
    by (simp add: q)
  have h2: "\<forall>r\<in>set (queues two_writes). \<not> (q_local (heap two_writes r) = False \<and> q_id (heap two_writes r) = 0)"
    by (simp add: q)
  from send_fails_or_enqueues [of two_writes False 0 "[3]" IndexTs] h2
  have 1: "send False 0 [3] two_writes = Inl (Error ''cannot write after end'')"
    "step IndexTs (Send False 0 [3]) two_writes = two_writes" by blast+
  from send_fails_or_enqueues [of two_writes True 0 "[3]" IndexTs] h1
  obtain r d' where d': "r \<in> set (queues two_writes)"
    "send True 0 [3] two_writes = Inr (resolvers two_writes, d')"
    "promises d' (resolvers two_writes) = Pending"
    "q_queue (heap d' r) \<noteq> [] \<and> last (q_queue (heap d' r)) = \<lparr>resolver = resolvers two_writes, t_data = [3]\<rparr>
       \<or> dataAwait d' = Some (r, \<lparr>resolver = resolvers two_writes, t_data = [3]\<rparr>)"
    by blast
  have r0: "r = 0" using d'(1) by (simp add: q)
  have "d' = processQueues (snd (enqueue 0 [3] two_writes))"
    using d'(2) by (simp add: send_def findQueue_def q split_beta)
  then have "dataAwait d' = Some (0, \<lparr>resolver = 0, t_data = [1]\<rparr>)"
    by (simp add: two_writes_def dispatcher_defs)
  then have "last (q_queue (heap d' 0)) = \<lparr>resolver = 2, t_data = [3]\<rparr>"
    using d'(4) by (simp add: r0 q)
  then show ?thesis using h1 1 d'(2,3) by (auto simp: q)
qed

text \<open>
  C7: take any state that a dispatcher can reach, a queue of its table and a task that
  waits in that queue. Once the close listener has taken the queue out of the table, no
  run of the dispatcher settles the promise of that task: it stays pending, neither
  resolved nor rejected.
\<close>

theorem abandoned_writes_never_complete:
  assumes "d = run i es0 new_dispatcher"
    and "r \<in> set (queues d)" and "task \<in> set (q_queue (heap d r))"
  shows "promises (run i es (removeQueue r d)) (resolver task) = Pending"
proof -
  have i: "Inv d" unfolding assms(1) by (rule Inv_run[OF Inv_new])
  have "r < allocated d" "distinct (queues d)" using i assms(2) by (auto simp: Inv_def)
  then have "r < allocated (removeQueue r d)" "r \<notin> set (queues (removeQueue r d))"
    by (simp_all add: removeQueue_def)
  moreover have "task \<in> set (q_queue (heap (removeQueue r d) r))"
    using assms(3) by (simp add: removeQueue_def)
  ultimately show ?thesis using abandoned_run[OF Inv_removeQueue[OF i]] by blast
qed

theorem abandoned_writes_never_complete_witness:
  "0 \<in> set (queues two_writes)
   \<and> \<lparr>resolver = 1, t_data = [2]\<rparr> \<in> set (q_queue (heap two_writes 0))
   \<and> promises (run IndexTs [ResumeData Sent 5, Send True 0 [3], ResumeData Sent 6]
                 (removeQueue 0 two_writes)) 1 = Pending
   \<and> promises (run IndexTs [ResumeData Sent 5, Send True 0 [3], ResumeData Sent 6]
                 (removeQueue 0 two_writes)) 0 = Resolved"
proof -
  have q: "queues two_writes = [0]"
    "q_queue (heap two_writes 0) = [\<lparr>resolver = 1, t_data = [2]\<rparr>]"
    by (simp_all add: two_writes_def dispatcher_defs)
  have h1: "0 \<in> set (queues two_writes)" by (simp add: q)
  have h2: "\<lparr>resolver = 1, t_data = [2]\<rparr> \<in> set (q_queue (heap two_writes 0))" by (simp add: q)
  have "promises (run IndexTs [ResumeData Sent 5, Send True 0 [3], ResumeData Sent 6]
                 (removeQueue 0 two_writes)) 1 = Pending"
    using abandoned_writes_never_complete
      [OF two_writes_def h1 h2, of "[ResumeData Sent 5, Send True 0 [3], ResumeData Sent 6]"]
    by simp
  moreover have "promises (run IndexTs [ResumeData Sent 5, Send True 0 [3], ResumeData Sent 6]
                 (removeQueue 0 two_writes)) 0 = Resolved"
    by (simp add: two_writes_def dispatcher_defs codec_defs opcodes)
  ultimately show ?thesis using h1 h2 by blast
qed

text \<open>
  C8: for every frame whose opcode fits in one byte and whose id is below \<open>2^32\<close>, with any
  payload, \<open>toBuffer\<close> succeeds and \<open>parse\<close> of its result gives back the same opcode, the same
  local flag, the same id and the same payload bytes (an absent payload comes back as the
  empty payload). The witness is the frame with opcode \<open>Data\<close>, origin flag 0, id 42 and
  payload 1, 2, 3.
\<close>

theorem parse_toBuffer_roundtrip:
  assumes "m_opcode m \<le> 255" and "m_id m < 2 ^ 32"
  shows "\<exists>b m'. toBuffer m = Inr b \<and> parse b = Inr m' \<and> m_opcode m' = m_opcode m
           \<and> m_local m' = m_local m \<and> m_id m' = m_id m \<and> m_data m' = Some (payload m)"
proof -
  have id: "m_id m \<le> 4294967295" using assms(2) by simp
  have "unat (of_nat (m_opcode m) :: byte) = m_opcode m"
    using assms(1) by (simp add: unat_of_nat)
  then show ?thesis
    using u32_bytes[OF id] by (simp add: toBuffer_ok[OF assms(1) id] parse_ok)
qed

theorem parse_toBuffer_roundtrip_witness:
  "toBuffer \<lparr>m_opcode = Data, m_local = True, m_id = 42, m_data = Some [1, 2, 3]\<rparr>
     = Inr [2, 0, 0, 0, 0, 42, 1, 2, 3]
   \<and> (\<exists>b m'. toBuffer \<lparr>m_opcode = Data, m_local = True, m_id = 42, m_data = Some [1, 2, 3]\<rparr> = Inr b
        \<and> parse b = Inr m' \<and> m_opcode m' = Data \<and> m_local m' = True \<and> m_id m' = 42
        \<and> m_data m' = Some [1, 2, 3])"
proof -
  let ?m = "\<lparr>m_opcode = Data, m_local = True, m_id = 42, m_data = Some [1, 2, 3]\<rparr>"
  have h1: "m_opcode ?m \<le> 255" by (simp add: Data_def)
  have h2: "m_id ?m < 2 ^ 32" by simp
  have enc: "toBuffer ?m = Inr [2, 0, 0, 0, 0, 42, 1, 2, 3]"
    by (simp add: Data_def toBuffer_def writeUInt8_def writeUInt32BE_def)
  have pl: "payload ?m = [1, 2, 3]" by (simp add: payload_def)
  from parse_toBuffer_roundtrip [OF h1 h2] show ?thesis
    unfolding pl using enc by simp
qed

text \<open>
  C9, as the code has it: \<open>parse\<close> fails exactly on the buffers shorter than 6 bytes; on
  every buffer of at least 6 bytes it succeeds, whatever byte 0 is, and the opcode of the
  message is that byte.
\<close>

theorem parse_fails_iff_short:
  "parse buffer =
     (if length buffer < 6 then Inl RangeError
      else Inr \<lparr>m_opcode = unat (buffer ! 0), m_local = (buffer ! 1 = 0),
                m_id = unat (buffer ! 2) * 16777216 + unat (buffer ! 3) * 65536
                     + unat (buffer ! 4) * 256 + unat (buffer ! 5),
                m_data = Some (drop 6 buffer)\<rparr>)"
proof (cases "length buffer < 6")
  case True
  then show ?thesis by (auto simp: parse_def getUint8_def getUint32_def)
next
  case False
  then obtain b0 b1 b2 b3 b4 b5 rest where "buffer = b0 # b1 # b2 # b3 # b4 # b5 # rest"
    by (rule len6)
  then show ?thesis by (simp add: parse_ok)
qed

theorem parse_fails_iff_short_witness:
  "parse [2, 0, 0, 0, 0] = Inl RangeError
   \<and> parse [9, 1, 0, 0, 1, 2, 7] =
       Inr \<lparr>m_opcode = 9, m_local = False, m_id = 258, m_data = Some [7]\<rparr>"
  using parse_fails_iff_short [of "[2, 0, 0, 0, 0]"]
    parse_fails_iff_short [of "[9, 1, 0, 0, 1, 2, 7]"]
  by simp

text \<open>
  C9 as stated fails: the 6-byte buffer whose byte 0 is 7, which is none of the five
  opcodes, decodes without error.
\<close>

theorem parse_unrecognized_opcode_counterexample:
  "7 \<notin> recognized
   \<and> parse [7, 0, 0, 0, 0, 0] = Inr \<lparr>m_opcode = 7, m_local = True, m_id = 0, m_data = Some []\<rparr>"
  by (simp add: recognized_def CreateChannel_def CloseChannel_def Data_def ChannelBufferFull_def
      ChannelBufferEmpty_def parse_ok)

text \<open>
  C10: the two copies of the dispatcher do not behave alike. For the first write of a
  remotely created channel (creation flag false, \<open>lastSendTime\<close> 0, here id 0 and data 8, 9)
  \<open>index.ts\<close> puts a \<open>CreateChannel\<close> frame on the wire where
  \<open>multiplex-websocket-dispatcher.ts\<close> puts a \<open>Data\<close> frame with the same flag, id and
  payload. The peer that created the channel opens a second channel for the first frame and
  delivers nothing to its own; it pushes the payload of the second frame to its channel.
\<close>

theorem first_remote_frame_differs:
  "dataAwait remote_reply = Some (0, \<lparr>resolver = 0, t_data = [8, 9]\<rparr>)
   \<and> q_local (heap remote_reply 0) = False \<and> lastSendTime (heap remote_reply 0) = 0
   \<and> wire (resumeData IndexTs Sent 5 remote_reply) = [[0, 1, 0, 0, 0, 0, 8, 9]]
   \<and> wire (resumeData DispatcherTs Sent 5 remote_reply) = [[2, 1, 0, 0, 0, 0, 8, 9]]
   \<and> parse [0, 1, 0, 0, 0, 0, 8, 9]
       = Inr \<lparr>m_opcode = CreateChannel, m_local = False, m_id = 0, m_data = Some [8, 9]\<rparr>
   \<and> parse [2, 1, 0, 0, 0, 0, 8, 9]
       = Inr \<lparr>m_opcode = Data, m_local = False, m_id = 0, m_data = Some [8, 9]\<rparr>
   \<and> channels peer_connection = [0]
   \<and> c_local (chans peer_connection 0) = True \<and> c_id (chans peer_connection 0) = 0
   \<and> channels (projr (onMessage True [0, 1, 0, 0, 0, 0, 8, 9] peer_connection)) = [0, 1]
   \<and> c_inbox (chans (projr (onMessage True [0, 1, 0, 0, 0, 0, 8, 9] peer_connection)) 0) = []
   \<and> channels (projr (onMessage True [2, 1, 0, 0, 0, 0, 8, 9] peer_connection)) = [0]
   \<and> c_inbox (chans (projr (onMessage True [2, 1, 0, 0, 0, 0, 8, 9] peer_connection)) 0)
       = [[8, 9]]"
proof -
  have 1: "dataAwait remote_reply = Some (0, \<lparr>resolver = 0, t_data = [8, 9]\<rparr>)"
    "q_local (heap remote_reply 0) = False" "lastSendTime (heap remote_reply 0) = 0"
    "wire (resumeData IndexTs Sent 5 remote_reply) = [[0, 1, 0, 0, 0, 0, 8, 9]]"
    "wire (resumeData DispatcherTs Sent 5 remote_reply) = [[2, 1, 0, 0, 0, 0, 8, 9]]"
    by (simp_all add: remote_reply_def dispatcher_defs codec_defs opcodes)
  have 2: "parse [0, 1, 0, 0, 0, 0, 8, 9]
       = Inr \<lparr>m_opcode = CreateChannel, m_local = False, m_id = 0, m_data = Some [8, 9]\<rparr>"
    "parse [2, 1, 0, 0, 0, 0, 8, 9]
       = Inr \<lparr>m_opcode = Data, m_local = False, m_id = 0, m_data = Some [8, 9]\<rparr>"
    by (simp_all add: parse_ok opcodes)
  have 3: "channels peer_connection = [0]"
    "c_local (chans peer_connection 0) = True" "c_id (chans peer_connection 0) = 0"
    by (simp_all add: peer_connection_def connection_defs dispatcher_defs)
  have 4: "channels (projr (onMessage True [0, 1, 0, 0, 0, 0, 8, 9] peer_connection)) = [0, 1]"
    "c_inbox (chans (projr (onMessage True [0, 1, 0, 0, 0, 0, 8, 9] peer_connection)) 0) = []"
    "channels (projr (onMessage True [2, 1, 0, 0, 0, 0, 8, 9] peer_connection)) = [0]"
    "c_inbox (chans (projr (onMessage True [2, 1, 0, 0, 0, 0, 8, 9] peer_connection)) 0)
       = [[8, 9]]"
    by (simp_all add: peer_connection_def connection_defs dispatcher_defs parse_ok opcodes
        payload_def)
  show ?thesis
    by (intro conjI) (rule 1 2 3 4)+
qed

end
